theory Spec2Isabelle
  imports Complex_Main "HOL-Library.AList"
begin

section \<open>StudyTracker: hierarchy model, progress aggregation and mutations\<close>

text \<open>
  A shallow embedding of the data handling of \<^verbatim>\<open>src/app.jsx\<close>: the helper
  \<^verbatim>\<open>calculateProgress\<close> and the mutation callbacks that the component \<^verbatim>\<open>App\<close> hands to
  \<^verbatim>\<open>SubjectManager\<close> (\<^verbatim>\<open>addSubject\<close>, \<^verbatim>\<open>addChapter\<close>, \<^verbatim>\<open>toggleQuestion\<close>, \<^verbatim>\<open>genQuestions\<close>,
  \<^verbatim>\<open>deleteChapter\<close>, \<^verbatim>\<open>addGenericSection\<close>, \<^verbatim>\<open>addSubExercise\<close>) together with \<^verbatim>\<open>saveData\<close> and
  the snapshot listener.
\<close>

subsection \<open>JavaScript numbers\<close>

text \<open>
  The only arithmetic of the program on non-integers is
  \<^verbatim>\<open>Math.round((completedQs / totalQs) * 100)\<close>. A JavaScript number is an IEEE 754 binary64
  value; the finite ones are rationals, so a number is modelled as a \<^typ>\<open>rat\<close> and every
  operation rounds its exact result to the nearest value with a 53 bit significand, ties to
  even. The exponent range is not bounded in the model: the quotients and products that occur
  are either 0 or lie between \<open>1 / n\<close> and \<open>100\<close> for a number of questions \<open>n\<close>,
  far inside the normal range of binary64. The two counters are natural numbers: a count
  below \<open>2\<^sup>5\<^sup>3\<close> is a binary64 value, and the additions on it are exact.
\<close>

fun bit_length :: "nat \<Rightarrow> nat" where
  "bit_length n = (if n = 0 then 0 else Suc (bit_length (n div 2)))"

declare bit_length.simps [simp del]

definition ilog2 :: "rat \<Rightarrow> int" where
  \<comment> \<open>the binary exponent \<open>\<lfloor>log\<^sub>2 x\<rfloor>\<close> of a positive number\<close>
  "ilog2 x =
     (if 1 \<le> x then int (bit_length (nat \<lfloor>x\<rfloor>)) - 1
      else - int (bit_length (nat (\<lceil>1 / x\<rceil> - 1))))"

definition rne :: "rat \<Rightarrow> int" where
  \<comment> \<open>round to the nearest integer, ties to even\<close>
  "rne x =
     (let f = \<lfloor>x\<rfloor>; d = x - of_int f
      in if d < 1 / 2 then f else if 1 / 2 < d then f + 1 else if even f then f else f + 1)"

definition ulp :: "rat \<Rightarrow> rat" where
  \<comment> \<open>the spacing of the binary64 values in the binade of a positive number\<close>
  "ulp x = 2 powi (ilog2 x - 52)"

definition fl :: "rat \<Rightarrow> rat" where
  \<comment> \<open>round to nearest binary64, ties to even\<close>
  "fl x = (if x = 0 then 0 else of_int (rne (x / ulp \<bar>x\<bar>)) * ulp \<bar>x\<bar>)"

definition js_div :: "rat \<Rightarrow> rat \<Rightarrow> rat" where
  \<comment> \<open>\<^verbatim>\<open>a / b\<close> for \<open>b \<noteq> 0\<close>\<close>
  "js_div a b = fl (a / b)"

definition js_mul :: "rat \<Rightarrow> rat \<Rightarrow> rat" where
  \<comment> \<open>\<^verbatim>\<open>a * b\<close>\<close>
  "js_mul a b = fl (a * b)"

definition Math_round :: "rat \<Rightarrow> int" where
  \<comment> \<open>\<^verbatim>\<open>Math.round\<close>: the nearest integer, a tie goes towards \<open>+\<infinity>\<close>\<close>
  "Math_round x = \<lfloor>x + 1 / 2\<rfloor>"

subsection \<open>The hierarchy\<close>

text \<open>
  The tree is made of plain JavaScript objects. A field that the code tests for absence
  (\<^verbatim>\<open>chapter.sections\<close>, \<^verbatim>\<open>section.subExercises\<close>, \<^verbatim>\<open>x.questions?.length\<close>) or that the code can
  leave out when it builds an object is an \<open>option\<close>, with \<open>None\<close> for \<^verbatim>\<open>undefined\<close>. An
  object used as a dictionary (\<^verbatim>\<open>sections\<close>, \<^verbatim>\<open>subExercises\<close>) is an association list in
  insertion order, which is the order of \<^verbatim>\<open>Object.values\<close> for keys such as UUIDs;
  \<^verbatim>\<open>{ ...obj, [k]: v }\<close> is \<^const>\<open>AList.update\<close>: it replaces the value of an existing key in
  place and appends a new key at the end. The records of a section and of a chapter are
  named \<open>sect\<close> and \<open>chap\<close>. A string is a list of characters, and a character stands for
  the code point of its number, from U+0000 to U+00FF; text with other characters is outside
  the model.
\<close>

record question =
  q_id :: string
  completed :: bool

record subExercise =
  sub_id :: string
  sub_name :: string
  sub_questions :: "question list option"

record sect =
  sec_id :: "string option"
  label :: "string option"
  sec_type :: "string option"
  questions :: "question list option"
  subExercises :: "(string \<times> subExercise) list option"

record chap =
  ch_id :: string
  ch_name :: string
  progress :: int
  sections :: "(string \<times> sect) list option"

record subject =
  subj_id :: string
  subj_name :: string
  chapters :: "chap list"

type_synonym tree = "subject list"

subsection \<open>The progress aggregator\<close>

definition qs_length :: "question list option \<Rightarrow> nat" where
  \<comment> \<open>\<^verbatim>\<open>x.questions?.length || 0\<close>\<close>
  "qs_length qs = (case qs of None \<Rightarrow> 0 | Some l \<Rightarrow> length l)"

definition qs_completed :: "question list option \<Rightarrow> nat" where
  \<comment> \<open>\<^verbatim>\<open>x.questions?.filter(q => q.completed).length || 0\<close>\<close>
  "qs_completed qs = (case qs of None \<Rightarrow> 0 | Some l \<Rightarrow> length (filter completed l))"

fun tally_subExercise :: "subExercise \<Rightarrow> nat \<times> nat \<Rightarrow> nat \<times> nat" where
  "tally_subExercise ex (totalQs, completedQs) =
     (totalQs + qs_length (sub_questions ex), completedQs + qs_completed (sub_questions ex))"

fun tally_section :: "sect \<Rightarrow> nat \<times> nat \<Rightarrow> nat \<times> nat" where
  "tally_section sec (totalQs, completedQs) =
     (case subExercises sec of
        Some subs \<Rightarrow>
          if sec_type sec = Some ''exercise''
          then fold tally_subExercise (map snd subs) (totalQs, completedQs)
          else (totalQs + qs_length (questions sec), completedQs + qs_completed (questions sec))
      | None \<Rightarrow>
          (totalQs + qs_length (questions sec), completedQs + qs_completed (questions sec)))"

definition percent :: "nat \<Rightarrow> nat \<Rightarrow> int" where
  \<comment> \<open>\<^verbatim>\<open>totalQs === 0 ? 0 : Math.round((completedQs / totalQs) * 100)\<close>\<close>
  "percent completedQs totalQs =
     (if totalQs = 0 then 0
      else Math_round (js_mul (js_div (of_nat completedQs) (of_nat totalQs)) 100))"

definition calculateProgress :: "chap option \<Rightarrow> int" where
  "calculateProgress chapter =
     (case chapter of
        None \<Rightarrow> 0
      | Some ch \<Rightarrow>
          (case sections ch of
             None \<Rightarrow> 0
           | Some secs \<Rightarrow>
               if length (map snd secs) = 0 then 0
               else (case fold tally_section (map snd secs) (0, 0) of
                       (totalQs, completedQs) \<Rightarrow> percent completedQs totalQs)))"

definition counted_questions :: "sect \<Rightarrow> question list" where
  \<comment> \<open>the questions that the callback of \<^verbatim>\<open>sections.forEach\<close> counts for one section\<close>
  "counted_questions sec =
     (case subExercises sec of
        Some subs \<Rightarrow>
          if sec_type sec = Some ''exercise''
          then concat (map (\<lambda>ex. case sub_questions ex of None \<Rightarrow> [] | Some l \<Rightarrow> l) (map snd subs))
          else (case questions sec of None \<Rightarrow> [] | Some l \<Rightarrow> l)
      | None \<Rightarrow> (case questions sec of None \<Rightarrow> [] | Some l \<Rightarrow> l))"

definition chapter_questions :: "chap \<Rightarrow> question list" where
  "chapter_questions ch =
     (case sections ch of None \<Rightarrow> [] | Some secs \<Rightarrow> concat (map counted_questions (map snd secs)))"

subsection \<open>Building blocks of the mutations\<close>

datatype error = TypeError | RangeError

text \<open>
  \<^verbatim>\<open>Array.prototype.map\<close> with a callback that may throw: the first exception leaves the
  whole call.
\<close>

fun mapE :: "('a \<Rightarrow> error + 'b) \<Rightarrow> 'a list \<Rightarrow> error + 'b list" where
  "mapE f [] = Inr []"
| "mapE f (x # xs) =
     (case f x of
        Inl e \<Rightarrow> Inl e
      | Inr y \<Rightarrow> (case mapE f xs of Inl e \<Rightarrow> Inl e | Inr ys \<Rightarrow> Inr (y # ys)))"

text \<open>
  \<^verbatim>\<open>crypto.randomUUID()\<close> is modelled by the sequence \<open>uuid\<close> of the values that its
  successive calls return and a counter \<open>k\<close> of the calls made so far; a \<^verbatim>\<open>map\<close> whose
  callback draws identifiers threads the counter through.
\<close>

fun mapS :: "(nat \<Rightarrow> 'a \<Rightarrow> 'b \<times> nat) \<Rightarrow> nat \<Rightarrow> 'a list \<Rightarrow> 'b list \<times> nat" where
  "mapS f k [] = ([], k)"
| "mapS f k (x # xs) =
     (case f k x of (y, k') \<Rightarrow> (case mapS f k' xs of (ys, k'') \<Rightarrow> (y # ys, k'')))"

fun mapES :: "(nat \<Rightarrow> 'a \<Rightarrow> error + 'b \<times> nat) \<Rightarrow> nat \<Rightarrow> 'a list \<Rightarrow> error + 'b list \<times> nat" where
  "mapES f k [] = Inr ([], k)"
| "mapES f k (x # xs) =
     (case f k x of
        Inl e \<Rightarrow> Inl e
      | Inr (y, k') \<Rightarrow>
          (case mapES f k' xs of Inl e \<Rightarrow> Inl e | Inr (ys, k'') \<Rightarrow> Inr (y # ys, k'')))"

definition digit_char :: "nat \<Rightarrow> char" where
  "digit_char d = ''0123456789'' ! (d mod 10)"

fun show_nat :: "nat \<Rightarrow> string" where
  \<comment> \<open>the decimal numeral that a template literal prints for a non-negative integer\<close>
  "show_nat n = (if n < 10 then [digit_char n] else show_nat (n div 10) @ [digit_char n])"

declare show_nat.simps [simp del]

definition upper_case_letters :: string where
  \<comment> \<open>the letters from U+0000 to U+00FF that \<^verbatim>\<open>toLowerCase\<close> changes: A to Z, U+00C0 to
      U+00D6 and U+00D8 to U+00DE\<close>
  "upper_case_letters =
     ''ABCDEFGHIJKLMNOPQRSTUVWXYZ'' @
     [
      CHR 0xC0, CHR 0xC1, CHR 0xC2, CHR 0xC3, CHR 0xC4, CHR 0xC5, CHR 0xC6, CHR 0xC7,
      CHR 0xC8, CHR 0xC9, CHR 0xCA, CHR 0xCB, CHR 0xCC, CHR 0xCD, CHR 0xCE, CHR 0xCF,
      CHR 0xD0, CHR 0xD1, CHR 0xD2, CHR 0xD3, CHR 0xD4, CHR 0xD5, CHR 0xD6, CHR 0xD8,
      CHR 0xD9, CHR 0xDA, CHR 0xDB, CHR 0xDC, CHR 0xDD, CHR 0xDE]"

definition lower_case_letters :: string where
  \<comment> \<open>their lower case forms, in the same order: a to z, U+00E0 to U+00F6 and U+00F8 to
      U+00FE\<close>
  "lower_case_letters =
     ''abcdefghijklmnopqrstuvwxyz'' @
     [
      CHR 0xE0, CHR 0xE1, CHR 0xE2, CHR 0xE3, CHR 0xE4, CHR 0xE5, CHR 0xE6, CHR 0xE7,
      CHR 0xE8, CHR 0xE9, CHR 0xEA, CHR 0xEB, CHR 0xEC, CHR 0xED, CHR 0xEE, CHR 0xEF,
      CHR 0xF0, CHR 0xF1, CHR 0xF2, CHR 0xF3, CHR 0xF4, CHR 0xF5, CHR 0xF6, CHR 0xF8,
      CHR 0xF9, CHR 0xFA, CHR 0xFB, CHR 0xFC, CHR 0xFD, CHR 0xFE]"

definition toLowerCase :: "string \<Rightarrow> string" where
  \<comment> \<open>\<^verbatim>\<open>String.prototype.toLowerCase\<close>\<close>
  "toLowerCase str =
     map (\<lambda>c. case map_of (zip upper_case_letters lower_case_letters) c of
                None \<Rightarrow> c
              | Some l \<Rightarrow> l) str"

definition white_space :: string where
  \<comment> \<open>the white space and line terminator characters from U+0000 to U+00FF: tab, line feed,
      vertical tab, form feed, carriage return, space and no-break space\<close>
  "white_space = [CHR 0x09, CHR 0x0A, CHR 0x0B, CHR 0x0C, CHR 0x0D, CHR 0x20, CHR 0xA0]"

definition trim_is_empty :: "string \<Rightarrow> bool" where
  \<comment> \<open>\<^verbatim>\<open>!name.trim()\<close>: the name has only white space and line terminators\<close>
  "trim_is_empty name = (\<forall>c \<in> set name. c \<in> set white_space)"

definition truthy :: "string option \<Rightarrow> string option" where
  \<comment> \<open>\<^verbatim>\<open>if (subExId)\<close>: \<^verbatim>\<open>undefined\<close> and the empty string are falsy\<close>
  "truthy v = (case v of None \<Rightarrow> None | Some str \<Rightarrow> if str = [] then None else Some str)"

definition ToLength :: "int option \<Rightarrow> int" where
  \<comment> \<open>the abstract operation \<open>ToLength\<close> on an integral number; \<open>None\<close> is \<^verbatim>\<open>NaN\<close>\<close>
  "ToLength n = (case n of None \<Rightarrow> 0 | Some v \<Rightarrow> if v \<le> 0 then 0 else min v (2 ^ 53 - 1))"

definition new_question :: "nat \<Rightarrow> question" where
  \<comment> \<open>\<^verbatim>\<open>(_, i) => ({ id: `q-${i+1}`, completed: false })\<close>\<close>
  "new_question i = \<lparr>q_id = ''q-'' @ show_nat (i + 1), completed = False\<rparr>"

definition fresh_questions :: "int option \<Rightarrow> error + question list" where
  \<comment> \<open>\<^verbatim>\<open>Array.from({ length: count }, ...)\<close>; \<^verbatim>\<open>new Array(len)\<close> throws a RangeError
      from \<open>2\<^sup>3\<^sup>2\<close> on\<close>
  "fresh_questions count =
     (let len = ToLength count
      in if 2 ^ 32 \<le> len then Inl RangeError else Inr (map new_question [0..<nat len]))"

definition toggle_list :: "string \<Rightarrow> question list \<Rightarrow> question list" where
  \<comment> \<open>\<^verbatim>\<open>qs.map(q => q.id === qId ? { ...q, completed: !q.completed } : q)\<close>\<close>
  "toggle_list qId qs = map (\<lambda>q. if q_id q = qId then q\<lparr>completed := \<not> completed q\<rparr> else q) qs"

definition with_sections :: "chap \<Rightarrow> (string \<times> sect) list \<Rightarrow> chap" where
  \<comment> \<open>\<^verbatim>\<open>{ ...c, sections: newSecs, progress: calculateProgress({ ...c, sections: newSecs }) }\<close>\<close>
  "with_sections c newSecs =
     c\<lparr>sections := Some newSecs, progress := calculateProgress (Some (c\<lparr>sections := Some newSecs\<rparr>))\<rparr>"

definition empty_object :: sect where
  \<comment> \<open>the object that spreading \<^verbatim>\<open>undefined\<close> gives: no property at all\<close>
  "empty_object = \<lparr>sec_id = None, label = None, sec_type = None, questions = None, subExercises = None\<rparr>"

definition Object_prototype_names :: "string list" where
  \<comment> \<open>the property names that every object inherits; \<^verbatim>\<open>obj[k]\<close> is not \<^verbatim>\<open>undefined\<close> for them\<close>
  "Object_prototype_names =
     [''constructor'', ''hasOwnProperty'', ''isPrototypeOf'', ''propertyIsEnumerable'',
      ''toLocaleString'', ''toString'', ''valueOf'', ''__proto__'', ''__defineGetter__'',
      ''__defineSetter__'', ''__lookupGetter__'', ''__lookupSetter__'']"

subsection \<open>The mutations\<close>

text \<open>
  Every callback computes the next tree from the \<^verbatim>\<open>subjects\<close> of the current render and hands
  it to \<^verbatim>\<open>saveData\<close>. The functions below compute that tree; \<open>Inl\<close> is an exception that
  leaves the callback before \<^verbatim>\<open>saveData\<close> is reached. Reading a property of \<^verbatim>\<open>undefined\<close> is
  a TypeError.
\<close>

definition addSubject :: "(nat \<Rightarrow> string) \<Rightarrow> nat \<Rightarrow> tree \<Rightarrow> string \<Rightarrow> (tree \<times> nat) option" where
  \<comment> \<open>\<open>None\<close>: the callback returns at \<^verbatim>\<open>if (!name.trim()) return;\<close>\<close>
  "addSubject uuid k subjects name =
     (if trim_is_empty name then None
      else Some (subjects @ [\<lparr>subj_id = uuid k, subj_name = name, chapters = []\<rparr>], k + 1))"

fun addChapter_sections ::
  "(nat \<Rightarrow> string) \<Rightarrow> nat \<Rightarrow> string list \<Rightarrow> (string \<times> sect) list \<Rightarrow> (string \<times> sect) list \<times> nat" where
  \<comment> \<open>the loop \<^verbatim>\<open>selectedSections.forEach(type => { ... sections[id] = ... })\<close>\<close>
  "addChapter_sections uuid k [] secs = (secs, k)"
| "addChapter_sections uuid k (type # types) secs =
     (let id = uuid k
      in addChapter_sections uuid (k + 1) types
           (AList.update id
              \<lparr>sec_id = Some id, label = Some type, sec_type = Some (toLowerCase type),
               questions = Some [],
               subExercises = (if type = ''EXERCISE'' then Some [] else None)\<rparr>
              secs))"

definition addChapter ::
  "(nat \<Rightarrow> string) \<Rightarrow> nat \<Rightarrow> tree \<Rightarrow> string \<Rightarrow> string \<Rightarrow> string list \<Rightarrow> tree \<times> nat" where
  "addChapter uuid k subjects sId name selectedSections =
     (case addChapter_sections uuid k selectedSections [] of
        (secs, k1) \<Rightarrow>
          mapS (\<lambda>k s. if subj_id s = sId
                       then (s\<lparr>chapters := chapters s @
                               [\<lparr>ch_id = uuid k, ch_name = name, progress = 0,
                                 sections = Some secs\<rparr>]\<rparr>, k + 1)
                       else (s, k))
            k1 subjects)"

definition toggleQuestion_chapter :: "string \<Rightarrow> string \<Rightarrow> string option \<Rightarrow> chap \<Rightarrow> error + chap" where
  "toggleQuestion_chapter secId qId subExId c =
     (case sections c of
        None \<Rightarrow> Inl TypeError
      | Some secs \<Rightarrow>
          (case truthy subExId of
             Some sx \<Rightarrow>
               (case map_of secs secId of
                  None \<Rightarrow> Inl TypeError
                | Some sec \<Rightarrow>
                    (case subExercises sec of
                       None \<Rightarrow> Inl TypeError
                     | Some subs \<Rightarrow>
                         (case map_of subs sx of
                            None \<Rightarrow> Inl TypeError
                          | Some sub \<Rightarrow>
                              (case sub_questions sub of
                                 None \<Rightarrow> Inl TypeError
                               | Some qs \<Rightarrow>
                                   Inr (with_sections c
                                     (AList.update secId
                                        (sec\<lparr>subExercises := Some
                                           (AList.update sx
                                              (sub\<lparr>sub_questions := Some (toggle_list qId qs)\<rparr>)
                                              subs)\<rparr>)
                                        secs))))))
           | None \<Rightarrow>
               (case map_of secs secId of
                  None \<Rightarrow> Inl TypeError
                | Some sec \<Rightarrow>
                    (case questions sec of
                       None \<Rightarrow> Inl TypeError
                     | Some qs \<Rightarrow>
                         Inr (with_sections c
                           (AList.update secId (sec\<lparr>questions := Some (toggle_list qId qs)\<rparr>) secs))))))"

definition toggleQuestion ::
  "tree \<Rightarrow> string \<Rightarrow> string \<Rightarrow> string \<Rightarrow> string \<Rightarrow> string option \<Rightarrow> error + tree" where
  "toggleQuestion subjects sId cId secId qId subExId =
     mapE (\<lambda>s. if subj_id s \<noteq> sId then Inr s
               else (case mapE (\<lambda>c. if ch_id c \<noteq> cId then Inr c
                                     else toggleQuestion_chapter secId qId subExId c)
                           (chapters s) of
                       Inl e \<Rightarrow> Inl e
                     | Inr cs \<Rightarrow> Inr (s\<lparr>chapters := cs\<rparr>)))
       subjects"

definition genQuestions_chapter :: "string \<Rightarrow> int option \<Rightarrow> chap \<Rightarrow> error + chap" where
  "genQuestions_chapter secId count c =
     (case fresh_questions count of
        Inl e \<Rightarrow> Inl e
      | Inr updQs \<Rightarrow>
          (case sections c of
             None \<Rightarrow> Inl TypeError
           | Some secs \<Rightarrow>
               Inr (with_sections c
                 (AList.update secId
                    ((case map_of secs secId of None \<Rightarrow> empty_object | Some sec \<Rightarrow> sec)
                       \<lparr>questions := Some updQs\<rparr>)
                    secs))))"

definition genQuestions ::
  "tree \<Rightarrow> string \<Rightarrow> string \<Rightarrow> string \<Rightarrow> int option \<Rightarrow> error + tree" where
  "genQuestions subjects sId cId secId count =
     mapE (\<lambda>s. if subj_id s \<noteq> sId then Inr s
               else (case mapE (\<lambda>c. if ch_id c \<noteq> cId then Inr c
                                     else genQuestions_chapter secId count c)
                           (chapters s) of
                       Inl e \<Rightarrow> Inl e
                     | Inr cs \<Rightarrow> Inr (s\<lparr>chapters := cs\<rparr>)))
       subjects"

definition deleteChapter :: "tree \<Rightarrow> string \<Rightarrow> string \<Rightarrow> tree" where
  "deleteChapter subjects sId cId =
     map (\<lambda>s. if subj_id s = sId then s\<lparr>chapters := filter (\<lambda>c. ch_id c \<noteq> cId) (chapters s)\<rparr> else s)
       subjects"

definition addGenericSection_chapter :: "(nat \<Rightarrow> string) \<Rightarrow> nat \<Rightarrow> string \<Rightarrow> chap \<Rightarrow> chap \<times> nat" where
  "addGenericSection_chapter uuid k lbl c =
     (let secId = uuid k
      in (with_sections c
            (AList.update secId
               \<lparr>sec_id = Some secId, label = Some lbl, sec_type = Some ''custom'',
                questions = Some [], subExercises = None\<rparr>
               (case sections c of None \<Rightarrow> [] | Some secs \<Rightarrow> secs)),
          k + 1))"

definition addGenericSection ::
  "(nat \<Rightarrow> string) \<Rightarrow> nat \<Rightarrow> tree \<Rightarrow> string \<Rightarrow> string \<Rightarrow> string \<Rightarrow> tree \<times> nat" where
  "addGenericSection uuid k subjects sId cId lbl =
     mapS (\<lambda>k s. if subj_id s \<noteq> sId then (s, k)
                 else (case mapS (\<lambda>k c. if ch_id c \<noteq> cId then (c, k)
                                         else addGenericSection_chapter uuid k lbl c)
                             k (chapters s) of
                         (cs, k') \<Rightarrow> (s\<lparr>chapters := cs\<rparr>, k')))
       k subjects"

definition addSubExercise_chapter ::
  "(nat \<Rightarrow> string) \<Rightarrow> nat \<Rightarrow> string \<Rightarrow> string \<Rightarrow> int option \<Rightarrow> chap \<Rightarrow> error + chap \<times> nat" where
  "addSubExercise_chapter uuid k secId name qCount c =
     (let subId = uuid k
      in case fresh_questions qCount of
           Inl e \<Rightarrow> Inl e
         | Inr qs \<Rightarrow>
             (let newSub = \<lparr>sub_id = subId, sub_name = name, sub_questions = Some qs\<rparr>
              in case sections c of
                   None \<Rightarrow> Inl TypeError
                 | Some secs \<Rightarrow>
                     (case map_of secs secId of
                        None \<Rightarrow>
                          if secId \<in> set Object_prototype_names
                          then Inr (with_sections c
                                 (AList.update secId
                                    (empty_object\<lparr>subExercises := Some (AList.update subId newSub [])\<rparr>)
                                    secs),
                                k + 1)
                          else Inl TypeError
                      | Some sec \<Rightarrow>
                          Inr (with_sections c
                                 (AList.update secId
                                    (sec\<lparr>subExercises := Some
                                       (AList.update subId newSub
                                          (case subExercises sec of None \<Rightarrow> [] | Some subs \<Rightarrow> subs))\<rparr>)
                                    secs),
                               k + 1))))"

definition addSubExercise ::
  "(nat \<Rightarrow> string) \<Rightarrow> nat \<Rightarrow> tree \<Rightarrow> string \<Rightarrow> string \<Rightarrow> string \<Rightarrow> string \<Rightarrow> int option
     \<Rightarrow> error + tree \<times> nat" where
  \<comment> \<open>\<open>qCount\<close> is the value of \<^verbatim>\<open>parseInt(count)\<close>, \<open>None\<close> for \<^verbatim>\<open>NaN\<close>\<close>
  "addSubExercise uuid k subjects sId cId secId name qCount =
     mapES (\<lambda>k s. if subj_id s \<noteq> sId then Inr (s, k)
                  else (case mapES (\<lambda>k c. if ch_id c \<noteq> cId then Inr (c, k)
                                           else addSubExercise_chapter uuid k secId name qCount c)
                              k (chapters s) of
                          Inl e \<Rightarrow> Inl e
                        | Inr (cs, k') \<Rightarrow> Inr (s\<lparr>chapters := cs\<rparr>, k')))
       k subjects"

subsection \<open>The callbacks and their effects\<close>

text \<open>
  The component keeps the tree in the state variable \<^verbatim>\<open>subjects\<close>. What a callback does to the
  outside is the sequence of its effects: a call of \<^verbatim>\<open>setDoc\<close> from \<^verbatim>\<open>saveData\<close> (the write of
  the whole document), calls of the state setters, and the opening and closing of the
  subscription. \<^verbatim>\<open>setSubjects\<close> is called at two places, both in the effect that follows the
  user: with the empty tree when there is no user, and in the listener of the subscription.
\<close>

record app =
  user :: "string option"
  subjects :: tree

datatype event =
    WriteDocument string tree
  | SetSubjects tree
  | SetView string
  | SetIsAddingSubject bool
  | Subscribe string
  | Unsubscribe string

definition saveData :: "app \<Rightarrow> tree \<Rightarrow> event list" where
  "saveData st newSubjs = (case user st of None \<Rightarrow> [] | Some uid \<Rightarrow> [WriteDocument uid newSubjs])"

definition on_addSubject :: "(nat \<Rightarrow> string) \<Rightarrow> nat \<Rightarrow> app \<Rightarrow> string \<Rightarrow> event list" where
  "on_addSubject uuid k st name =
     (case addSubject uuid k (subjects st) name of
        None \<Rightarrow> []
      | Some (newSubjs, _) \<Rightarrow> saveData st newSubjs @ [SetIsAddingSubject False])"

definition on_addChapter ::
  "(nat \<Rightarrow> string) \<Rightarrow> nat \<Rightarrow> app \<Rightarrow> string \<Rightarrow> string \<Rightarrow> string list \<Rightarrow> event list" where
  "on_addChapter uuid k st sId name selectedSections =
     saveData st (fst (addChapter uuid k (subjects st) sId name selectedSections))"

definition on_toggleQuestion ::
  "app \<Rightarrow> string \<Rightarrow> string \<Rightarrow> string \<Rightarrow> string \<Rightarrow> string option \<Rightarrow> error + event list" where
  "on_toggleQuestion st sId cId secId qId subExId =
     (case toggleQuestion (subjects st) sId cId secId qId subExId of
        Inl e \<Rightarrow> Inl e
      | Inr newSubjs \<Rightarrow> Inr (saveData st newSubjs))"

definition on_genQuestions ::
  "app \<Rightarrow> string \<Rightarrow> string \<Rightarrow> string \<Rightarrow> int option \<Rightarrow> error + event list" where
  "on_genQuestions st sId cId secId count =
     (case genQuestions (subjects st) sId cId secId count of
        Inl e \<Rightarrow> Inl e
      | Inr newSubjs \<Rightarrow> Inr (saveData st newSubjs))"

definition on_deleteChapter :: "app \<Rightarrow> string \<Rightarrow> string \<Rightarrow> event list" where
  "on_deleteChapter st sId cId = saveData st (deleteChapter (subjects st) sId cId) @ [SetView sId]"

definition on_addGenericSection ::
  "(nat \<Rightarrow> string) \<Rightarrow> nat \<Rightarrow> app \<Rightarrow> string \<Rightarrow> string \<Rightarrow> string \<Rightarrow> event list" where
  "on_addGenericSection uuid k st sId cId lbl =
     saveData st (fst (addGenericSection uuid k (subjects st) sId cId lbl))"

definition on_addSubExercise ::
  "(nat \<Rightarrow> string) \<Rightarrow> nat \<Rightarrow> app \<Rightarrow> string \<Rightarrow> string \<Rightarrow> string \<Rightarrow> string \<Rightarrow> int option
     \<Rightarrow> error + event list" where
  "on_addSubExercise uuid k st sId cId secId name qCount =
     (case addSubExercise uuid k (subjects st) sId cId secId name qCount of
        Inl e \<Rightarrow> Inl e
      | Inr (newSubjs, _) \<Rightarrow> Inr (saveData st newSubjs))"

definition on_snapshot :: "tree option option \<Rightarrow> event list" where
  \<comment> \<open>the listener of \<^verbatim>\<open>onSnapshot\<close>; \<open>None\<close>: the document does not exist, \<open>Some None\<close>: it has
      no \<^verbatim>\<open>list\<close>\<close>
  "on_snapshot snap =
     (case snap of
        None \<Rightarrow> []
      | Some d \<Rightarrow> [SetSubjects (case d of None \<Rightarrow> [] | Some l \<Rightarrow> l)])"

definition on_user_change :: "string option \<Rightarrow> string option \<Rightarrow> event list" where
  \<comment> \<open>the effect with the dependency \<^verbatim>\<open>[user]\<close>, when the user changes from \<open>prev\<close> to \<open>new\<close>:
      the cleanup of the last run closes its subscription, then the tree is cleared or the
      subscription of the new user is opened\<close>
  "on_user_change prev new =
     (case prev of None \<Rightarrow> [] | Some uid \<Rightarrow> [Unsubscribe uid])
     @ (case new of None \<Rightarrow> [SetSubjects []] | Some uid \<Rightarrow> [Subscribe uid])"

fun apply_event :: "app \<Rightarrow> event \<Rightarrow> app" where
  "apply_event st (SetSubjects t) = st\<lparr>subjects := t\<rparr>"
| "apply_event st _ = st"

subsection \<open>Vocabulary of the properties\<close>

text \<open>
  The chapters that a callback with the arguments \<open>sId\<close> and \<open>cId\<close> works on: those with the
  identifier \<open>cId\<close> in the subjects with the identifier \<open>sId\<close>, in the order of the two
  nested \<^verbatim>\<open>map\<close> calls. With unique identifiers there is at most one.
\<close>

definition addressed_chapters :: "tree \<Rightarrow> string \<Rightarrow> string \<Rightarrow> chap list" where
  "addressed_chapters t sId cId =
     concat (map (\<lambda>s. filter (\<lambda>c. ch_id c = cId) (chapters s)) (filter (\<lambda>s. subj_id s = sId) t))"

definition map_chapters :: "string \<Rightarrow> string \<Rightarrow> (chap \<Rightarrow> chap) \<Rightarrow> tree \<Rightarrow> tree" where
  \<comment> \<open>the two nested \<^verbatim>\<open>map\<close> calls around a chapter update that does not throw\<close>
  "map_chapters sId cId g t =
     map (\<lambda>s. if subj_id s \<noteq> sId then s
              else s\<lparr>chapters := map (\<lambda>c. if ch_id c \<noteq> cId then c else g c) (chapters s)\<rparr>) t"

definition has_section :: "string \<Rightarrow> chap \<Rightarrow> bool" where
  "has_section secId c =
     (case sections c of None \<Rightarrow> False | Some secs \<Rightarrow> map_of secs secId \<noteq> None)"

definition has_question_list :: "string \<Rightarrow> string option \<Rightarrow> chap \<Rightarrow> bool" where
  \<comment> \<open>the chapter has the question list that \<open>secId\<close> and \<open>subExId\<close> address\<close>
  "has_question_list secId subExId c =
     (case sections c of
        None \<Rightarrow> False
      | Some secs \<Rightarrow>
          (case map_of secs secId of
             None \<Rightarrow> False
           | Some sec \<Rightarrow>
               (case truthy subExId of
                  None \<Rightarrow> questions sec \<noteq> None
                | Some sx \<Rightarrow>
                    (case subExercises sec of
                       None \<Rightarrow> False
                     | Some subs \<Rightarrow>
                         (case map_of subs sx of
                            None \<Rightarrow> False
                          | Some sub \<Rightarrow> sub_questions sub \<noteq> None)))))"

definition addressed_questions :: "string \<Rightarrow> string option \<Rightarrow> chap \<Rightarrow> question list option" where
  \<comment> \<open>the question list that \<open>secId\<close> and \<open>subExId\<close> address in a chapter, if there is one\<close>
  "addressed_questions secId subExId c =
     (case sections c of
        None \<Rightarrow> None
      | Some secs \<Rightarrow>
          (case map_of secs secId of
             None \<Rightarrow> None
           | Some sec \<Rightarrow>
               (case truthy subExId of
                  None \<Rightarrow> questions sec
                | Some sx \<Rightarrow>
                    (case subExercises sec of
                       None \<Rightarrow> None
                     | Some subs \<Rightarrow>
                         (case map_of subs sx of
                            None \<Rightarrow> None
                          | Some sub \<Rightarrow> sub_questions sub)))))"

definition refresh_progress :: "chap \<Rightarrow> chap" where
  "refresh_progress c = c\<lparr>progress := calculateProgress (Some c)\<rparr>"

definition one_shape :: "sect \<Rightarrow> bool" where
  \<comment> \<open>either a direct question list or a sub-exercise map, never both\<close>
  "one_shape sec = ((questions sec \<noteq> None) \<noteq> (subExercises sec \<noteq> None))"

definition tree_sections :: "tree \<Rightarrow> sect list" where
  "tree_sections t =
     concat (map (\<lambda>s. concat (map (\<lambda>c. case sections c of None \<Rightarrow> [] | Some secs \<Rightarrow> map snd secs)
                                 (chapters s))) t)"

definition claimed_questions :: "sect \<Rightarrow> question list" where
  \<comment> \<open>the questions to count when the type of the section alone decides\<close>
  "claimed_questions sec =
     (if sec_type sec = Some ''exercise''
      then concat (map (\<lambda>ex. case sub_questions ex of None \<Rightarrow> [] | Some l \<Rightarrow> l)
                     (map snd (case subExercises sec of None \<Rightarrow> [] | Some subs \<Rightarrow> subs)))
      else (case questions sec of None \<Rightarrow> [] | Some l \<Rightarrow> l))"

definition claimed_progress :: "chap \<Rightarrow> int" where
  "claimed_progress ch =
     (let qs = concat (map claimed_questions
                         (map snd (case sections ch of None \<Rightarrow> [] | Some secs \<Rightarrow> secs)))
      in percent (length (filter completed qs)) (length qs))"

text \<open>
  Two chapters that differ only in that questions which are not completed in the first may be
  completed in the second.
\<close>

definition question_le :: "question \<Rightarrow> question \<Rightarrow> bool" where
  "question_le q q' = (q_id q = q_id q' \<and> (completed q \<longrightarrow> completed q'))"

definition questions_le :: "question list option \<Rightarrow> question list option \<Rightarrow> bool" where
  "questions_le = rel_option (list_all2 question_le)"

definition subExercise_le :: "subExercise \<Rightarrow> subExercise \<Rightarrow> bool" where
  "subExercise_le ex ex' =
     (sub_id ex = sub_id ex' \<and> sub_name ex = sub_name ex'
      \<and> questions_le (sub_questions ex) (sub_questions ex'))"

definition section_le :: "sect \<Rightarrow> sect \<Rightarrow> bool" where
  "section_le sec sec' =
     (sec_id sec = sec_id sec' \<and> label sec = label sec' \<and> sec_type sec = sec_type sec'
      \<and> questions_le (questions sec) (questions sec')
      \<and> rel_option (list_all2 (\<lambda>(k, ex) (k', ex'). k = k' \<and> subExercise_le ex ex'))
            (subExercises sec) (subExercises sec'))"

definition chapter_le :: "chap \<Rightarrow> chap \<Rightarrow> bool" where
  "chapter_le ch ch' =
     (ch_id ch = ch_id ch' \<and> ch_name ch = ch_name ch'
      \<and> rel_option (list_all2 (\<lambda>(k, sec) (k', sec'). k = k' \<and> section_le sec sec'))
            (sections ch) (sections ch'))"

text \<open>
  The order of effects under which the tree of every dispatched write is already the tree in
  memory at the moment of the dispatch.
\<close>

fun write_after_visible :: "app \<Rightarrow> event list \<Rightarrow> bool" where
  "write_after_visible st [] = True"
| "write_after_visible st (WriteDocument uid t # evs) = (subjects st = t \<and> write_after_visible st evs)"
| "write_after_visible st (e # evs) = write_after_visible (apply_event st e) evs"

definition run_events :: "app \<Rightarrow> event list \<Rightarrow> app" where
  "run_events st evs = fold (\<lambda>e s. apply_event s e) evs st"

text \<open>Equally many questions, and at most as many of them completed.\<close>

definition counts_le :: "question list \<Rightarrow> question list \<Rightarrow> bool" where
  "counts_le l l' = (length l = length l' \<and> length (filter completed l) \<le> length (filter completed l'))"

definition created_section :: "string list \<Rightarrow> string \<Rightarrow> sect \<Rightarrow> bool" where
  \<comment> \<open>a section as \<^verbatim>\<open>addChapter\<close> builds it for one of the kinds, under the key \<open>key\<close>\<close>
  "created_section kinds key sec =
     (sec_id sec = Some key \<and> questions sec = Some []
      \<and> (\<exists>type \<in> set kinds.
            label sec = Some type \<and> sec_type sec = Some (toLowerCase type)
            \<and> subExercises sec = (if type = ''EXERCISE'' then Some [] else None)))"

definition questions_replaced :: "string \<Rightarrow> question list \<Rightarrow> chap \<Rightarrow> chap \<Rightarrow> bool" where
  \<comment> \<open>the chapter \<open>c'\<close> is the chapter \<open>c\<close> with the direct question list of its section
      \<open>secId\<close> replaced by \<open>qs\<close> and the progress recomputed\<close>
  "questions_replaced secId qs c c' =
     (case sections c of
        None \<Rightarrow> False
      | Some secs \<Rightarrow>
          (case map_of secs secId of
             None \<Rightarrow> False
           | Some sec \<Rightarrow>
               (case sections c' of
                  None \<Rightarrow> False
                | Some secs' \<Rightarrow>
                    map_of secs' secId = Some (sec\<lparr>questions := Some qs\<rparr>)
                    \<and> map fst secs' = map fst secs
                    \<and> (\<forall>k \<in> set (map fst secs). k \<noteq> secId \<longrightarrow> map_of secs' k = map_of secs k)
                    \<and> ch_id c' = ch_id c \<and> ch_name c' = ch_name c
                    \<and> progress c' = calculateProgress (Some c'))))"

definition sub_added ::
  "(nat \<Rightarrow> string) \<Rightarrow> nat \<Rightarrow> nat \<Rightarrow> string \<Rightarrow> string \<Rightarrow> question list \<Rightarrow> chap \<Rightarrow> chap \<Rightarrow> bool" where
  \<comment> \<open>the chapter \<open>c'\<close> is the chapter \<open>c\<close> with one sub-exercise put into the map of its
      section \<open>secId\<close>, under an identifier drawn by one of the calls \<open>k\<close> to \<open>k' - 1\<close> of
      \<^verbatim>\<open>crypto.randomUUID\<close>, and the progress recomputed\<close>
  "sub_added uuid k k' secId name qs c c' =
     (case sections c of
        None \<Rightarrow> False
      | Some secs \<Rightarrow>
          (case map_of secs secId of
             None \<Rightarrow> False
           | Some sec \<Rightarrow>
               (case sections c' of
                  None \<Rightarrow> False
                | Some secs' \<Rightarrow>
                    (\<exists>j \<in> {k..<k'}.
                       map_of secs' secId
                         = Some (sec\<lparr>subExercises := Some
                             (AList.update (uuid j)
                                \<lparr>sub_id = uuid j, sub_name = name, sub_questions = Some qs\<rparr>
                                (case subExercises sec of None \<Rightarrow> [] | Some subs \<Rightarrow> subs))\<rparr>))
                    \<and> map fst secs' = map fst secs
                    \<and> (\<forall>key \<in> set (map fst secs). key \<noteq> secId \<longrightarrow> map_of secs' key = map_of secs key)
                    \<and> ch_id c' = ch_id c \<and> ch_name c' = ch_name c
                    \<and> progress c' = calculateProgress (Some c'))))"

subsection \<open>Example trees\<close>

definition uuid0 :: "nat \<Rightarrow> string" where
  "uuid0 n = ''uuid-'' @ show_nat n"

definition sec_pyqs :: sect where
  "sec_pyqs =
     \<lparr>sec_id = Some ''x1'', label = Some ''PYQS'', sec_type = Some ''pyqs'',
      questions = Some [\<lparr>q_id = ''q-1'', completed = False\<rparr>, \<lparr>q_id = ''q-2'', completed = True\<rparr>],
      subExercises = None\<rparr>"

definition sec_exercise :: sect where
  "sec_exercise =
     \<lparr>sec_id = Some ''e1'', label = Some ''EXERCISE'', sec_type = Some ''exercise'',
      questions = Some [],
      subExercises = Some [(''a1'', \<lparr>sub_id = ''a1'', sub_name = ''Set A'',
                                    sub_questions = Some [\<lparr>q_id = ''q-1'', completed = False\<rparr>,
                                                          \<lparr>q_id = ''q-2'', completed = False\<rparr>]\<rparr>)]\<rparr>"

definition chapter1 :: chap where
  "chapter1 =
     \<lparr>ch_id = ''c1'', ch_name = ''Algebra'', progress = 25,
      sections = Some [(''x1'', sec_pyqs), (''e1'', sec_exercise)]\<rparr>"

definition tree1 :: tree where
  "tree1 = [\<lparr>subj_id = ''s1'', subj_name = ''Math'', chapters = [chapter1]\<rparr>]"

definition app1 :: app where
  "app1 = \<lparr>user = Some ''uid-1'', subjects = tree1\<rparr>"

definition chapter_23_of_40 :: chap where
  \<comment> \<open>one section with 40 questions, the first 23 of them completed\<close>
  "chapter_23_of_40 =
     \<lparr>ch_id = ''c2'', ch_name = ''Geometry'', progress = 57,
      sections = Some [(''x2'',
        \<lparr>sec_id = Some ''x2'', label = Some ''EXAMPLES'', sec_type = Some ''examples'',
         questions = Some (map (\<lambda>i. \<lparr>q_id = ''q-'' @ show_nat (i + 1), completed = (i < 23)\<rparr>) [0..<40]),
         subExercises = None\<rparr>)]\<rparr>"

definition chapter_bare_exercise :: chap where
  \<comment> \<open>a section of type exercise without a sub-exercise map, as \<^verbatim>\<open>addChapter\<close> builds it for the
      kind \<^verbatim>\<open>'exercise'\<close>, after one question was generated and completed\<close>
  "chapter_bare_exercise =
     \<lparr>ch_id = ''c3'', ch_name = ''Sets'', progress = 100,
      sections = Some [(''e3'',
        \<lparr>sec_id = Some ''e3'', label = Some ''exercise'', sec_type = Some ''exercise'',
         questions = Some [\<lparr>q_id = ''q-1'', completed = True\<rparr>],
         subExercises = None\<rparr>)]\<rparr>"

definition chapter_empty :: chap where
  "chapter_empty =
     \<lparr>ch_id = ''c0'', ch_name = ''Intro'', progress = 0,
      sections = Some [(''x0'',
        \<lparr>sec_id = Some ''x0'', label = Some ''NOTES'', sec_type = Some ''custom'',
         questions = Some [], subExercises = None\<rparr>)]\<rparr>"

definition chapter1_done :: chap where
  "chapter1_done =
     chapter1\<lparr>sections := Some [(''x1'', sec_pyqs\<lparr>questions :=
        Some [\<lparr>q_id = ''q-1'', completed = True\<rparr>, \<lparr>q_id = ''q-2'', completed = True\<rparr>]\<rparr>),
        (''e1'', sec_exercise)]\<rparr>"

definition tree0 :: tree where
  \<comment> \<open>the tree after \<^verbatim>\<open>addSubject("Math")\<close>\<close>
  "tree0 = [\<lparr>subj_id = ''s1'', subj_name = ''Math'', chapters = []\<rparr>]"

definition tree1_toggled :: tree where
  \<comment> \<open>\<open>tree1\<close> after the first question of the section \<open>x1\<close> was toggled\<close>
  "tree1_toggled =
     [\<lparr>subj_id = ''s1'', subj_name = ''Math'', chapters =
        [\<lparr>ch_id = ''c1'', ch_name = ''Algebra'', progress = 50,
          sections = Some
            [(''x1'', sec_pyqs\<lparr>questions :=
                Some [\<lparr>q_id = ''q-1'', completed = True\<rparr>, \<lparr>q_id = ''q-2'', completed = True\<rparr>]\<rparr>),
             (''e1'', sec_exercise)]\<rparr>]\<rparr>]"

definition five_questions :: "question list" where
  \<comment> \<open>the list that \<^verbatim>\<open>Array.from\<close> builds for the count 5\<close>
  "five_questions =
     [\<lparr>q_id = ''q-1'', completed = False\<rparr>, \<lparr>q_id = ''q-2'', completed = False\<rparr>,
      \<lparr>q_id = ''q-3'', completed = False\<rparr>, \<lparr>q_id = ''q-4'', completed = False\<rparr>,
      \<lparr>q_id = ''q-5'', completed = False\<rparr>]"

definition tree1_five :: tree where
  \<comment> \<open>\<open>tree1\<close> after five questions were generated for the section \<open>x1\<close>\<close>
  "tree1_five =
     [\<lparr>subj_id = ''s1'', subj_name = ''Math'', chapters =
        [\<lparr>ch_id = ''c1'', ch_name = ''Algebra'', progress = 0,
          sections = Some
            [(''x1'', sec_pyqs\<lparr>questions := Some five_questions\<rparr>), (''e1'', sec_exercise)]\<rparr>]\<rparr>]"

definition tree1_reset :: tree where
  \<comment> \<open>\<open>tree1\<close> after the section \<open>x1\<close> was reset\<close>
  "tree1_reset =
     [\<lparr>subj_id = ''s1'', subj_name = ''Math'', chapters =
        [\<lparr>ch_id = ''c1'', ch_name = ''Algebra'', progress = 0,
          sections = Some
            [(''x1'', sec_pyqs\<lparr>questions := Some []\<rparr>), (''e1'', sec_exercise)]\<rparr>]\<rparr>]"

definition tree1_subset_in_pyqs :: tree where
  \<comment> \<open>\<open>tree1\<close> after a sub-exercise with two questions was added to the section \<open>x1\<close>\<close>
  "tree1_subset_in_pyqs =
     [\<lparr>subj_id = ''s1'', subj_name = ''Math'', chapters =
        [\<lparr>ch_id = ''c1'', ch_name = ''Algebra'', progress = 25,
          sections = Some
            [(''x1'', sec_pyqs\<lparr>subExercises := Some
                [(''uuid-0'', \<lparr>sub_id = ''uuid-0'', sub_name = ''Set B'',
                                sub_questions = Some [\<lparr>q_id = ''q-1'', completed = False\<rparr>,
                                                      \<lparr>q_id = ''q-2'', completed = False\<rparr>]\<rparr>)]\<rparr>),
             (''e1'', sec_exercise)]\<rparr>]\<rparr>]"

definition tree1_subset_in_exercise :: tree where
  \<comment> \<open>\<open>tree1\<close> after a sub-exercise with two questions was added to the section \<open>e1\<close>\<close>
  "tree1_subset_in_exercise =
     [\<lparr>subj_id = ''s1'', subj_name = ''Math'', chapters =
        [\<lparr>ch_id = ''c1'', ch_name = ''Algebra'', progress = 17,
          sections = Some
            [(''x1'', sec_pyqs),
             (''e1'', sec_exercise\<lparr>subExercises := Some
                [(''a1'', \<lparr>sub_id = ''a1'', sub_name = ''Set A'',
                            sub_questions = Some [\<lparr>q_id = ''q-1'', completed = False\<rparr>,
                                                  \<lparr>q_id = ''q-2'', completed = False\<rparr>]\<rparr>),
                 (''uuid-0'', \<lparr>sub_id = ''uuid-0'', sub_name = ''Set B'',
                                sub_questions = Some [\<lparr>q_id = ''q-1'', completed = False\<rparr>,
                                                      \<lparr>q_id = ''q-2'', completed = False\<rparr>]\<rparr>)]\<rparr>)]\<rparr>]\<rparr>]"


definition session_tree :: tree where
  \<comment> \<open>a subject, a chapter with one exercise section, a sub-exercise of four questions, and
      two of the questions toggled\<close>
  "session_tree =
     (case addSubject uuid0 0 [] ''Math'' of
        None \<Rightarrow> []
      | Some (t1, k1) \<Rightarrow>
          (case addChapter uuid0 k1 t1 ''uuid-0'' ''Algebra'' [''EXERCISE''] of
             (t2, k2) \<Rightarrow>
               (case addSubExercise uuid0 k2 t2 ''uuid-0'' ''uuid-2'' ''uuid-1'' ''Set A'' (Some 4) of
                  Inl e \<Rightarrow> []
                | Inr (t3, k3) \<Rightarrow>
                    (case toggleQuestion t3 ''uuid-0'' ''uuid-2'' ''uuid-1'' ''q-1'' (Some ''uuid-3'') of
                       Inl e \<Rightarrow> []
                     | Inr t4 \<Rightarrow>
                         (case toggleQuestion t4 ''uuid-0'' ''uuid-2'' ''uuid-1'' ''q-3'' (Some ''uuid-3'') of
                            Inl e \<Rightarrow> []
                          | Inr t5 \<Rightarrow> t5)))))"

section \<open>Rounding to binary64\<close>

lemma bit_length_upper: "n < 2 ^ bit_length n"
proof (induction n rule: bit_length.induct)
  case (1 n)
  show ?case
  proof (cases "n = 0")
    case True
    then show ?thesis by (simp add: bit_length.simps)
  next
    case False
    with 1 have "n div 2 < 2 ^ bit_length (n div 2)" by simp
    then have "n < 2 * 2 ^ bit_length (n div 2)" by linarith
    with False show ?thesis by (subst bit_length.simps) simp
  qed
qed

lemma bit_length_lower: "0 < n \<Longrightarrow> 2 ^ bit_length n \<le> 2 * n"
proof (induction n rule: bit_length.induct)
  case (1 n)
  show ?case
  proof (cases "n div 2 = 0")
    case True
    with 1 have "n = 1" by linarith
    then show ?thesis by (simp add: bit_length.simps)
  next
    case False
    with 1 have "2 ^ bit_length (n div 2) \<le> 2 * (n div 2)" by simp
    then have "2 * 2 ^ bit_length (n div 2) \<le> 2 * n" by linarith
    with 1(2) show ?thesis by (subst bit_length.simps) simp
  qed
qed

lemma bit_length_pos: "0 < n \<Longrightarrow> 0 < bit_length n"
  by (subst bit_length.simps) simp

lemma bit_length_rat:
  assumes "0 < n"
  shows "(2::rat) ^ bit_length n \<le> 2 * of_nat n" and "of_nat n + 1 \<le> (2::rat) ^ bit_length n"
proof -
  have "rat_of_nat (2 ^ bit_length n) \<le> rat_of_nat (2 * n)"
    using bit_length_lower[OF assms] by (simp only: of_nat_le_iff)
  then show "(2::rat) ^ bit_length n \<le> 2 * of_nat n" by simp
  have "Suc n \<le> 2 ^ bit_length n" using bit_length_upper[of n] by simp
  then have "rat_of_nat (Suc n) \<le> rat_of_nat (2 ^ bit_length n)" by (simp only: of_nat_le_iff)
  then show "of_nat n + 1 \<le> (2::rat) ^ bit_length n" by simp
qed

lemma powi_minus_one: "0 < b \<Longrightarrow> 2 * (2::rat) powi (int b - 1) = 2 ^ b"
  by (cases b) (simp_all add: power_int_def nat_diff_distrib')

lemma powi_Suc: "(2::rat) powi (k + 1) = 2 * 2 powi k"
  by (simp add: power_int_add)

lemma ilog2_bounds:
  assumes "0 < x"
  shows "2 powi (ilog2 x) \<le> x \<and> x < 2 powi (ilog2 x + 1)"
proof (cases "1 \<le> x")
  case True
  define n where "n = nat \<lfloor>x\<rfloor>"
  have "0 < \<lfloor>x\<rfloor>" using True by (simp add: less_floor_iff)
  then have n: "0 < n" "of_nat n \<le> x" "x < of_nat n + 1"
    using floor_correct[of x] by (auto simp: n_def)
  have k: "ilog2 x = int (bit_length n) - 1" using True by (simp add: ilog2_def n_def)
  have e: "2 * (2::rat) powi (ilog2 x) = 2 ^ bit_length n"
    unfolding k by (rule powi_minus_one[OF bit_length_pos[OF n(1)]])
  show ?thesis using bit_length_rat[OF n(1)] n(2,3) e by (simp add: powi_Suc)
next
  case False
  define m where "m = nat (\<lceil>1 / x\<rceil> - 1)"
  from False assms have "1 < 1 / x" by simp
  then have c: "2 \<le> \<lceil>1 / x\<rceil>" by (simp add: le_ceiling_iff)
  have m: "0 < m" "int m = \<lceil>1 / x\<rceil> - 1" unfolding m_def using c by linarith+
  have "rat_of_int (int m) < 1 / x" unfolding m(2) using ceiling_correct[of "1 / x"] by simp
  then have lo: "of_nat m < 1 / x" by simp
  have "1 / x \<le> rat_of_int (int m + 1)" unfolding m(2) using ceiling_correct[of "1 / x"] by simp
  then have hi: "1 / x \<le> of_nat m + 1" by simp
  have k: "ilog2 x = - int (bit_length m)" using False by (simp add: ilog2_def m_def)
  have p: "(2::rat) powi (ilog2 x) = 1 / 2 ^ bit_length m"
    unfolding k by (simp add: power_int_minus field_simps)
  have "1 / x \<le> 2 ^ bit_length m" using hi bit_length_rat(2)[OF m(1)] by linarith
  then have a: "1 / 2 ^ bit_length m \<le> x" using assms by (simp add: field_simps)
  have "2 ^ bit_length m < 2 * (1 / x)" using lo bit_length_rat(1)[OF m(1)] by linarith
  then have b: "x < 2 * (1 / 2 ^ bit_length m)" using assms by (simp add: field_simps)
  show ?thesis using a b by (simp add: powi_Suc p)
qed


lemma rne_err: "\<bar>of_int (rne x) - x\<bar> \<le> 1 / 2"
  using floor_correct[of x] by (auto simp: rne_def Let_def)

lemma rne_of_int: "rne (of_int n) = n"
  by (simp add: rne_def)

lemma rne_mono: assumes "x \<le> y" shows "rne x \<le> rne y"
proof (cases "\<lfloor>x\<rfloor> = \<lfloor>y\<rfloor>")
  case True
  then show ?thesis using assms by (auto simp: rne_def Let_def)
next
  case False
  then have "\<lfloor>x\<rfloor> + 1 \<le> \<lfloor>y\<rfloor>" using floor_mono[OF assms] by linarith
  moreover have "rne x \<le> \<lfloor>x\<rfloor> + 1" by (auto simp: rne_def Let_def)
  moreover have "\<lfloor>y\<rfloor> \<le> rne y" by (auto simp: rne_def Let_def)
  ultimately show ?thesis by linarith
qed


lemma ilog2_mono: assumes "0 < x" "x \<le> y" shows "ilog2 x \<le> ilog2 y"
proof (rule ccontr)
  assume "\<not> ilog2 x \<le> ilog2 y"
  then have "ilog2 y + 1 \<le> ilog2 x" by simp
  then have "(2::rat) powi (ilog2 y + 1) \<le> 2 powi (ilog2 x)"
    by (rule power_int_increasing) simp
  moreover have "2 powi (ilog2 x) \<le> x" using ilog2_bounds[OF assms(1)] by simp
  moreover have "y < 2 powi (ilog2 y + 1)" using ilog2_bounds[of y] assms by simp
  ultimately show False using assms(2) by linarith
qed

lemma ulp_pos: "0 < ulp x"
  by (simp add: ulp_def)

lemma ulp_eq: "ulp x * 2 ^ 52 = 2 powi (ilog2 x)"
  by (simp add: ulp_def power_int_diff)

lemma fl_pos_eq: "0 < x \<Longrightarrow> fl x = of_int (rne (x / ulp x)) * ulp x"
  by (simp add: fl_def)

lemma scaled_bounds:
  assumes "0 < x"
  shows "2 ^ 52 \<le> x / ulp x" and "x / ulp x < 2 ^ 53"
proof -
  have b: "ulp x * 2 ^ 52 \<le> x" "x < 2 * (ulp x * 2 ^ 52)"
    using ilog2_bounds[OF assms] by (simp_all only: ulp_eq powi_Suc)
  show "2 ^ 52 \<le> x / ulp x" using b(1) ulp_pos[of x] by (simp add: pos_le_divide_eq mult.commute)
  show "x / ulp x < 2 ^ 53" using b(2) ulp_pos[of x] by (simp add: pos_divide_less_eq)
qed

lemma mantissa_bounds:
  assumes "0 < x"
  shows "2 ^ 52 \<le> rne (x / ulp x)" and "rne (x / ulp x) \<le> 2 ^ 53"
proof -
  have "rne (of_int (2 ^ 52)) \<le> rne (x / ulp x)"
    by (rule rne_mono) (use scaled_bounds(1)[OF assms] in simp)
  then show "2 ^ 52 \<le> rne (x / ulp x)" by (simp only: rne_of_int)
  have "rne (x / ulp x) \<le> rne (of_int (2 ^ 53))"
    by (rule rne_mono) (use scaled_bounds(2)[OF assms] in simp)
  then show "rne (x / ulp x) \<le> 2 ^ 53" by (simp only: rne_of_int)
qed

lemma fl_range:
  assumes "0 < x"
  shows "2 powi (ilog2 x) \<le> fl x" and "fl x \<le> 2 powi (ilog2 x + 1)"
proof -
  have "rat_of_int (2 ^ 52) \<le> of_int (rne (x / ulp x))"
    using mantissa_bounds(1)[OF assms] by (simp only: of_int_le_iff)
  then have "2 ^ 52 * ulp x \<le> of_int (rne (x / ulp x)) * ulp x"
    using ulp_pos[of x] by (simp add: mult_right_mono)
  then show "2 powi (ilog2 x) \<le> fl x"
    using ulp_eq[of x] by (simp add: fl_pos_eq[OF assms] mult.commute)
  have "of_int (rne (x / ulp x)) \<le> rat_of_int (2 ^ 53)"
    using mantissa_bounds(2)[OF assms] by (simp only: of_int_le_iff)
  then have "of_int (rne (x / ulp x)) * ulp x \<le> 2 ^ 53 * ulp x"
    using ulp_pos[of x] by (simp add: mult_right_mono)
  then show "fl x \<le> 2 powi (ilog2 x + 1)"
    using ulp_eq[of x] by (simp add: fl_pos_eq[OF assms] powi_Suc)
qed

lemma fl_err:
  assumes "0 < x"
  shows "\<bar>fl x - x\<bar> \<le> x / 2 ^ 53"
proof -
  have "fl x - x = (of_int (rne (x / ulp x)) - x / ulp x) * ulp x"
    using ulp_pos[of x] by (simp add: fl_pos_eq[OF assms] left_diff_distrib)
  then have "\<bar>fl x - x\<bar> = \<bar>of_int (rne (x / ulp x)) - x / ulp x\<bar> * ulp x"
    using ulp_pos[of x] by (simp add: abs_mult)
  also have "\<dots> \<le> 1 / 2 * ulp x"
    using ulp_pos[of x] rne_err[of "x / ulp x"] by (simp add: mult_right_mono)
  also have "\<dots> \<le> x / 2 ^ 53"
    using ilog2_bounds[OF assms] ulp_eq[of x] by simp
  finally show ?thesis .
qed

lemma fl_mono_pos:
  assumes "0 < x" "x \<le> y"
  shows "fl x \<le> fl y"
proof (cases "ilog2 x = ilog2 y")
  case True
  then have u: "ulp x = ulp y" by (simp add: ulp_def)
  have "x / ulp y \<le> y / ulp y" using assms(2) ulp_pos[of y] by (simp add: divide_right_mono)
  then have "rne (x / ulp y) \<le> rne (y / ulp y)" by (rule rne_mono)
  then have "rat_of_int (rne (x / ulp y)) \<le> of_int (rne (y / ulp y))" by (simp only: of_int_le_iff)
  then have "of_int (rne (x / ulp y)) * ulp y \<le> of_int (rne (y / ulp y)) * ulp y"
    using ulp_pos[of y] by (simp add: mult_right_mono)
  then show ?thesis using assms by (simp add: fl_pos_eq u)
next
  case False
  then have "ilog2 x + 1 \<le> ilog2 y" using ilog2_mono[OF assms] by simp
  then have "(2::rat) powi (ilog2 x + 1) \<le> 2 powi (ilog2 y)"
    by (rule power_int_increasing) simp
  moreover have "fl x \<le> 2 powi (ilog2 x + 1)" by (rule fl_range(2)[OF assms(1)])
  moreover have "2 powi (ilog2 y) \<le> fl y" by (rule fl_range(1)) (use assms in simp)
  ultimately show ?thesis by linarith
qed

lemma fl_mono: assumes "0 \<le> x" "x \<le> y" shows "fl x \<le> fl y"
proof (cases "x = 0")
  case True
  show ?thesis
  proof (cases "y = 0")
    case True
    with \<open>x = 0\<close> show ?thesis by simp
  next
    case False
    then have "0 < y" using assms by simp
    then have "0 < fl y" using fl_range(1)[of y] zero_less_power_int[of "2::rat" "ilog2 y"] by linarith
    with True show ?thesis by (simp add: fl_def)
  qed
next
  case False
  then show ?thesis using assms by (simp add: fl_mono_pos)
qed


lemma fl_0: "fl 0 = 0"
  by (simp add: fl_def)

lemma fl_nonneg: "0 \<le> x \<Longrightarrow> 0 \<le> fl x"
  using fl_mono[of 0 x] by (simp add: fl_0)

lemma fl_1: "fl 1 = 1"
  by code_simp

lemma fl_100: "fl 100 = 100"
  by code_simp

lemma percent_0_total: "percent c 0 = 0"
  by (simp add: percent_def)

lemma percent_mono:
  assumes "c \<le> c'"
  shows "percent c t \<le> percent c' t"
proof (cases "t = 0")
  case True
  then show ?thesis by (simp add: percent_def)
next
  case False
  have "rat_of_nat c / of_nat t \<le> of_nat c' / of_nat t"
    using assms by (simp add: divide_right_mono)
  then have "fl (of_nat c / of_nat t) \<le> fl (of_nat c' / of_nat t)"
    by (intro fl_mono) simp_all
  moreover have "0 \<le> fl (rat_of_nat c / of_nat t)" by (rule fl_nonneg) simp
  ultimately have "fl (fl (of_nat c / of_nat t) * 100) \<le> fl (fl (of_nat c' / of_nat t) * 100)"
    by (intro fl_mono) simp_all
  then show ?thesis
    using False by (simp add: percent_def Math_round_def js_mul_def js_div_def floor_mono)
qed

lemma percent_range:
  assumes "c \<le> t"
  shows "0 \<le> percent c t" and "percent c t \<le> 100"
proof -
  have "percent 0 t \<le> percent c t" by (rule percent_mono) simp
  moreover have "percent 0 t = 0"
    by (simp add: percent_def Math_round_def js_mul_def js_div_def fl_0 floor_eq_iff)
  ultimately show "0 \<le> percent c t" by simp
  have "percent c t \<le> percent t t" by (rule percent_mono[OF assms])
  moreover have "percent t t \<le> 100"
    by (simp add: percent_def Math_round_def js_mul_def js_div_def fl_1 fl_100 floor_eq_iff)
  ultimately show "percent c t \<le> 100" by simp
qed


lemma percent_err:
  assumes "0 < c" "c \<le> t"
  shows "\<bar>fl (fl (of_nat c / of_nat t) * 100) - 100 * of_nat c / of_nat t\<bar> \<le> 1 / 2 ^ 45"
proof -
  define x :: rat where "x = of_nat c / of_nat t"
  have x: "0 < x" "x \<le> 1" using assms by (simp_all add: x_def)
  have e1: "\<bar>fl x - x\<bar> \<le> x / 2 ^ 53" by (rule fl_err[OF x(1)])
  have "x / 2 ^ 53 < x" using x(1) by simp
  then have f1: "0 < fl x" "fl x \<le> 2" using e1 x by linarith+
  then have y: "0 < fl x * 100" "fl x * 100 \<le> 200" by simp_all
  have e2: "\<bar>fl (fl x * 100) - fl x * 100\<bar> \<le> fl x * 100 / 2 ^ 53" by (rule fl_err[OF y(1)])
  have p: "(2::rat) ^ 53 = 9007199254740992" by simp
  have a: "fl x - x \<le> x / 9007199254740992" "x - fl x \<le> x / 9007199254740992"
    using e1 unfolding p by linarith+
  have b: "fl (fl x * 100) - fl x * 100 \<le> fl x * 100 / 9007199254740992"
    "fl x * 100 - fl (fl x * 100) \<le> fl x * 100 / 9007199254740992"
    using e2 unfolding p by linarith+
  have "fl (fl x * 100) - 100 * x \<le> 1 / 35184372088832"
    using a b x f1 by linarith
  moreover have "100 * x - fl (fl x * 100) \<le> 1 / 35184372088832"
    using a b x f1 by linarith
  moreover have "(2::rat) ^ 45 = 35184372088832" by simp
  ultimately have "\<bar>fl (fl x * 100) - 100 * x\<bar> \<le> 1 / 2 ^ 45"
    by (simp only:)
  then show ?thesis by (simp add: x_def)
qed


lemma round_grid:
  fixes c t :: nat
  assumes "0 < t"
  defines "r \<equiv> 100 * rat_of_nat c / of_nat t"
  shows "r + 1 / 2 \<le> of_int (round r) + 1 - 1 / (2 * of_nat t)"
    and "(200 * c + t) mod (2 * t) \<noteq> 0 \<Longrightarrow> of_int (round r) + 1 / (2 * of_nat t) \<le> r + 1 / 2"
proof -
  define A where "A = int (200 * c + t)"
  define B where "B = int (2 * t)"
  define N where "N = round r"
  have B: "0 < B" "0 < rat_of_int B" using assms(1) by (simp_all add: B_def)
  have q: "r + 1 / 2 = of_int A / of_int B"
    using assms(1) by (simp add: r_def A_def B_def field_simps)
  have "of_int N \<le> of_int A / rat_of_int B" "of_int A / rat_of_int B < of_int N + 1"
    using floor_correct[of "r + 1 / 2"] by (simp_all add: N_def round_def q)
  then have "rat_of_int (N * B) \<le> of_int A" "rat_of_int A < of_int ((N + 1) * B)"
    using B(2) by (simp_all add: pos_le_divide_eq pos_divide_less_eq)
  then have i: "N * B \<le> A" "A < (N + 1) * B" by (simp_all only: of_int_le_iff of_int_less_iff)
  from i(2) have "A + 1 \<le> (N + 1) * B" by simp
  then have "rat_of_int (A + 1) \<le> of_int ((N + 1) * B)" by (simp only: of_int_le_iff)
  then have "of_int A / rat_of_int B \<le> of_int N + 1 - 1 / of_int B"
    using B(2) by (simp add: field_simps)
  then show "r + 1 / 2 \<le> of_int (round r) + 1 - 1 / (2 * of_nat t)"
    by (simp add: q N_def B_def)
  assume "(200 * c + t) mod (2 * t) \<noteq> 0"
  then have "A mod B \<noteq> 0" unfolding A_def B_def by (simp only: zmod_int[symmetric])
  then have "A \<noteq> N * B" by auto
  with i(1) have "N * B + 1 \<le> A" by simp
  then have "rat_of_int (N * B + 1) \<le> of_int A" by (simp only: of_int_le_iff)
  then have "(of_int N * of_int B + 1) / of_int B \<le> of_int A / rat_of_int B"
    using B(2) by (simp add: divide_right_mono)
  then have "of_int N + 1 / of_int B \<le> of_int A / rat_of_int B"
    using B(2) by (simp add: add_divide_distrib)
  then show "of_int (round r) + 1 / (2 * of_nat t) \<le> r + 1 / 2"
    by (simp add: q N_def B_def)
qed

lemma percent_accuracy:
  assumes "0 < t" "c \<le> t" "t < 2 ^ 44"
  shows "percent c t = round (100 * rat_of_nat c / of_nat t)
       \<or> percent c t = round (100 * rat_of_nat c / of_nat t) - 1"
    and "(200 * c + t) mod (2 * t) \<noteq> 0 \<Longrightarrow> percent c t = round (100 * rat_of_nat c / of_nat t)"
proof -
  define r where "r = 100 * rat_of_nat c / of_nat t"
  define z where "z = fl (fl (of_nat c / of_nat t) * 100)"
  have pz: "percent c t = \<lfloor>z + 1 / 2\<rfloor>"
    using assms(1) by (simp add: percent_def Math_round_def js_mul_def js_div_def z_def)
  define eps :: rat where "eps = 1 / 2 ^ 45"
  have eps: "eps \<le> 1" by (simp add: eps_def)
  have "rat_of_nat t < of_nat (2 ^ 44)" using assms(3) by (simp only: of_nat_less_iff)
  then have "2 * rat_of_nat t < 2 ^ 45" by simp
  then have d: "eps < 1 / (2 * rat_of_nat t)"
    using assms(1) by (simp add: eps_def field_simps)
  have e: "\<bar>z - r\<bar> \<le> eps"
  proof (cases "c = 0")
    case True
    then show ?thesis by (simp add: z_def r_def fl_0 eps_def)
  next
    case False
    then show ?thesis unfolding z_def r_def eps_def using percent_err[of c t] assms(2) by simp
  qed
  have up: "r + 1 / 2 \<le> of_int (round r) + 1 - 1 / (2 * of_nat t)"
    unfolding r_def by (rule round_grid(1)[OF assms(1)])
  have "z + 1 / 2 < of_int (round r) + 1" using up e d by linarith
  then have "z + 1 / 2 < of_int (round r + 1)" by simp
  then have "\<lfloor>z + 1 / 2\<rfloor> < round r + 1" by (simp only: floor_less_iff)
  then have le: "\<lfloor>z + 1 / 2\<rfloor> \<le> round r" by simp
  have "of_int (round r) \<le> r + 1 / 2" using floor_correct[of "r + 1 / 2"] by (simp add: round_def)
  then have "of_int (round r) - 1 \<le> z + 1 / 2" using e eps by linarith
  then have "of_int (round r - 1) \<le> z + 1 / 2" by simp
  then have ge: "round r - 1 \<le> \<lfloor>z + 1 / 2\<rfloor>" by (simp only: le_floor_iff)
  show "percent c t = round (100 * rat_of_nat c / of_nat t)
       \<or> percent c t = round (100 * rat_of_nat c / of_nat t) - 1"
    using le ge unfolding pz r_def[symmetric] by linarith
  assume "(200 * c + t) mod (2 * t) \<noteq> 0"
  then have "of_int (round r) + 1 / (2 * of_nat t) \<le> r + 1 / 2"
    unfolding r_def by (rule round_grid(2)[OF assms(1)])
  then have "of_int (round r) \<le> z + 1 / 2" using e d by linarith
  then have "round r \<le> \<lfloor>z + 1 / 2\<rfloor>" by (simp only: le_floor_iff)
  then show "percent c t = round (100 * rat_of_nat c / of_nat t)"
    using le unfolding pz r_def[symmetric] by linarith
qed


section \<open>The aggregator counts a flat list of questions\<close>

lemma fold_tally_subExercise:
  "fold tally_subExercise exs (t, c) =
     (t + length (concat (map (\<lambda>ex. case sub_questions ex of None \<Rightarrow> [] | Some l \<Rightarrow> l) exs)),
      c + length (filter completed (concat (map (\<lambda>ex. case sub_questions ex of None \<Rightarrow> [] | Some l \<Rightarrow> l) exs))))"
  by (induction exs arbitrary: t c) (auto simp: qs_length_def qs_completed_def split: option.splits)

lemma tally_section_counted:
  "tally_section sec (t, c) =
     (t + length (counted_questions sec), c + length (filter completed (counted_questions sec)))"
  by (auto simp: counted_questions_def fold_tally_subExercise qs_length_def qs_completed_def
      split: option.splits)

lemma fold_tally_section:
  "fold tally_section ss (t, c) =
     (t + length (concat (map counted_questions ss)),
      c + length (filter completed (concat (map counted_questions ss))))"
  by (induction ss arbitrary: t c) (simp_all add: tally_section_counted del: tally_section.simps)

lemma calculateProgress_percent:
  "calculateProgress (Some ch) =
     percent (length (filter completed (chapter_questions ch))) (length (chapter_questions ch))"
  by (cases "sections ch")
     (auto simp: calculateProgress_def chapter_questions_def fold_tally_section percent_0_total)

lemma calculateProgress_None: "calculateProgress None = 0"
  by (simp add: calculateProgress_def)

lemma ch40_questions:
  "length (chapter_questions chapter_23_of_40) = 40"
  "length (filter completed (chapter_questions chapter_23_of_40)) = 23"
  by (simp_all add: chapter_questions_def chapter_23_of_40_def counted_questions_def upt_conv_Cons)

lemma percent_23_40: "percent 23 40 = 57"
  by code_simp


section \<open>C1: the value of the progress\<close>

lemma binary64_23_of_40:
  "js_div 23 40 = 2589569785738035 / 4503599627370496"
  "js_mul (js_div 23 40) 100 = 8092405580431359 / 140737488355328"
  "js_mul (js_div 23 40) 100 < 115 / 2"
  by code_simp+

text \<open>
  C1 reads: for every chapter, \<^verbatim>\<open>calculateProgress\<close> returns \<open>round (100 * completed / total)\<close>
  over the questions reached through the sections of the chapter, and exactly 0 when there is
  no question. With 23 of 40 questions completed the exact quotient is \<open>57.5\<close>, which rounds
  to 58. In binary64 \<^verbatim>\<open>23 / 40\<close> is \<open>0.57499999999999995559...\<close> and \<^verbatim>\<open>(23 / 40) * 100\<close> is
  \<open>57.499999999999992894...\<close> (JavaScript prints \<^verbatim>\<open>57.49999999999999\<close>), so that \<^verbatim>\<open>Math.round\<close>
  gives 57.
\<close>

theorem C1_counterexample:
  "calculateProgress (Some chapter_23_of_40)
     \<noteq> round (100 * rat_of_nat (length (filter completed (chapter_questions chapter_23_of_40)))
               / rat_of_nat (length (chapter_questions chapter_23_of_40)))"
  by (simp add: calculateProgress_percent ch40_questions percent_23_40 round_def floor_eq_iff)


text \<open>
  C1 as the code has it: the result is 0 when there is no question, it always lies between 0
  and 100, and (for fewer than \<open>2\<^sup>4\<^sup>4\<close> questions) it is the exact rounding of
  \<open>100 * completed / total\<close> unless that quotient lies exactly half-way between two integers,
  where it can also be the integer below.
\<close>

theorem calculateProgress_rounding:
  "(length (chapter_questions ch) = 0 \<longrightarrow> calculateProgress (Some ch) = 0)
   \<and> 0 \<le> calculateProgress (Some ch) \<and> calculateProgress (Some ch) \<le> 100
   \<and> (0 < length (chapter_questions ch) \<and> length (chapter_questions ch) < 2 ^ 44 \<longrightarrow>
        (calculateProgress (Some ch)
           = round (100 * rat_of_nat (length (filter completed (chapter_questions ch)))
                    / rat_of_nat (length (chapter_questions ch)))
         \<or> calculateProgress (Some ch)
           = round (100 * rat_of_nat (length (filter completed (chapter_questions ch)))
                    / rat_of_nat (length (chapter_questions ch))) - 1)
        \<and> ((200 * length (filter completed (chapter_questions ch)) + length (chapter_questions ch))
              mod (2 * length (chapter_questions ch)) \<noteq> 0 \<longrightarrow>
            calculateProgress (Some ch)
              = round (100 * rat_of_nat (length (filter completed (chapter_questions ch)))
                       / rat_of_nat (length (chapter_questions ch)))))"
proof -
  let ?t = "length (chapter_questions ch)"
  let ?c = "length (filter completed (chapter_questions ch))"
  have le: "?c \<le> ?t" by simp
  have p: "calculateProgress (Some ch) = percent ?c ?t" by (rule calculateProgress_percent)
  have z: "?t = 0 \<longrightarrow> calculateProgress (Some ch) = 0" by (simp add: p percent_0_total)
  have r: "0 \<le> calculateProgress (Some ch)" "calculateProgress (Some ch) \<le> 100"
    unfolding p by (rule percent_range[OF le])+
  have a: "0 < ?t \<and> ?t < 2 ^ 44 \<longrightarrow>
      (percent ?c ?t = round (100 * rat_of_nat ?c / rat_of_nat ?t)
       \<or> percent ?c ?t = round (100 * rat_of_nat ?c / rat_of_nat ?t) - 1)
      \<and> ((200 * ?c + ?t) mod (2 * ?t) \<noteq> 0 \<longrightarrow>
            percent ?c ?t = round (100 * rat_of_nat ?c / rat_of_nat ?t))"
    using percent_accuracy[of ?t ?c] le by blast
  show ?thesis using z r a unfolding p by blast
qed

theorem calculateProgress_rounding_witness:
  "calculateProgress (Some chapter_empty) = 0 \<and> calculateProgress (Some chapter1) = 25"
  using calculateProgress_rounding [of chapter_empty] calculateProgress_rounding [of chapter1]
  by (simp add: chapter_questions_def counted_questions_def chapter_empty_def chapter1_def
      sec_pyqs_def sec_exercise_def round_def floor_eq_iff)

section \<open>C8: completing more questions never lowers the progress\<close>

lemma counts_le_questions:
  "list_all2 question_le l l' \<Longrightarrow> counts_le l l'"
  by (induction rule: list_all2_induct) (auto simp: counts_le_def question_le_def)

lemma counts_le_option:
  "questions_le qs qs' \<Longrightarrow>
     counts_le (case qs of None \<Rightarrow> [] | Some l \<Rightarrow> l) (case qs' of None \<Rightarrow> [] | Some l \<Rightarrow> l)"
  by (cases qs; cases qs') (auto simp: questions_le_def counts_le_def dest: counts_le_questions)

lemma counts_le_concat:
  assumes "list_all2 P xs ys" and "\<And>x y. P x y \<Longrightarrow> counts_le (f x) (f y)"
  shows "counts_le (concat (map f xs)) (concat (map f ys))"
  using assms(1)
proof (induction rule: list_all2_induct)
  case Nil
  then show ?case by (simp add: counts_le_def)
next
  case (Cons x xs y ys)
  then show ?case using assms(2)[of x y] by (simp add: counts_le_def)
qed

lemma counts_le_section:
  assumes "section_le sec sec'"
  shows "counts_le (counted_questions sec) (counted_questions sec')"
proof -
  have t: "sec_type sec = sec_type sec'" and q: "questions_le (questions sec) (questions sec')"
    and r: "rel_option (list_all2 (\<lambda>(k, ex) (k', ex'). k = k' \<and> subExercise_le ex ex'))
              (subExercises sec) (subExercises sec')"
    using assms by (simp_all add: section_le_def)
  show ?thesis
  proof (cases "subExercises sec")
    case None
    then have "subExercises sec' = None" using r by (cases "subExercises sec'") simp_all
    with None show ?thesis using counts_le_option[OF q] by (simp add: counted_questions_def)
  next
    case (Some subs)
    then obtain subs' where s': "subExercises sec' = Some subs'"
      and l: "list_all2 (\<lambda>(k, ex) (k', ex'). k = k' \<and> subExercise_le ex ex') subs subs'"
      using r by (cases "subExercises sec'") simp_all
    have "list_all2 subExercise_le (map snd subs) (map snd subs')"
      using l by (induction rule: list_all2_induct) auto
    then have "counts_le
        (concat (map (\<lambda>ex. case sub_questions ex of None \<Rightarrow> [] | Some l \<Rightarrow> l) (map snd subs)))
        (concat (map (\<lambda>ex. case sub_questions ex of None \<Rightarrow> [] | Some l \<Rightarrow> l) (map snd subs')))"
      by (rule counts_le_concat) (simp add: subExercise_le_def counts_le_option)
    then show ?thesis using Some s' t counts_le_option[OF q] by (simp add: counted_questions_def)
  qed
qed

lemma counts_le_chapter:
  assumes "chapter_le ch ch'"
  shows "counts_le (chapter_questions ch) (chapter_questions ch')"
proof -
  have r: "rel_option (list_all2 (\<lambda>(k, sec) (k', sec'). k = k' \<and> section_le sec sec'))
             (sections ch) (sections ch')"
    using assms by (simp add: chapter_le_def)
  show ?thesis
  proof (cases "sections ch")
    case None
    then have "sections ch' = None" using r by (cases "sections ch'") simp_all
    with None show ?thesis by (simp add: chapter_questions_def counts_le_def)
  next
    case (Some secs)
    then obtain secs' where s': "sections ch' = Some secs'"
      and l: "list_all2 (\<lambda>(k, sec) (k', sec'). k = k' \<and> section_le sec sec') secs secs'"
      using r by (cases "sections ch'") simp_all
    have "list_all2 section_le (map snd secs) (map snd secs')"
      using l by (induction rule: list_all2_induct) auto
    then have "counts_le (concat (map counted_questions (map snd secs)))
                 (concat (map counted_questions (map snd secs')))"
      by (rule counts_le_concat) (rule counts_le_section)
    then show ?thesis using Some s' by (simp add: chapter_questions_def)
  qed
qed

text \<open>
  C8: when two chapters are identical except that questions which are not completed in the
  first are completed in the second, the progress of the second is at least the progress of
  the first.
\<close>

theorem calculateProgress_monotone:
  assumes "chapter_le ch ch'"
  shows "calculateProgress (Some ch) \<le> calculateProgress (Some ch')"
proof -
  have "counts_le (chapter_questions ch) (chapter_questions ch')"
    by (rule counts_le_chapter[OF assms])
  then show ?thesis
    by (simp add: calculateProgress_percent counts_le_def percent_mono)
qed

theorem calculateProgress_monotone_witness:
  "chapter_le chapter1 chapter1_done
   \<and> calculateProgress (Some chapter1) \<le> calculateProgress (Some chapter1_done)"
proof -
  have h: "chapter_le chapter1 chapter1_done"
    by (simp add: chapter_le_def section_le_def subExercise_le_def questions_le_def question_le_def
        chapter1_def chapter1_done_def sec_pyqs_def sec_exercise_def)
  from h calculateProgress_monotone[OF h] show ?thesis by simp
qed

section \<open>C9: which list of a section is counted\<close>

lemma percent_1_1: "percent (Suc 0) (Suc 0) = 100"
proof -
  have "percent 1 1 = 100" by code_simp
  then show ?thesis by simp
qed

text \<open>
  C9 reads: for a section of type \<^verbatim>\<open>exercise\<close> the aggregator counts only the questions of the
  sub-exercise map and ignores a direct question list, and for every other type it counts only
  the direct list. The test of the code is \<^verbatim>\<open>section.type === 'exercise' && section.subExercises\<close>:
  a section of type \<^verbatim>\<open>exercise\<close> without a sub-exercise map takes the other branch, and its
  direct list is counted.
\<close>

theorem C9_counterexample:
  "calculateProgress (Some chapter_bare_exercise) \<noteq> claimed_progress chapter_bare_exercise"
  by (simp add: calculateProgress_percent chapter_questions_def counted_questions_def
      claimed_progress_def claimed_questions_def chapter_bare_exercise_def percent_1_1
      percent_0_total)


text \<open>
  C9 as the code has it: the progress is the percentage over the concatenation of one list per
  section; for a section of type \<^verbatim>\<open>exercise\<close> that carries a sub-exercise map this list is the
  flattened map, whatever the direct list is, and for every other section (another type, or no
  map) it is the direct list, whatever the map of a section of another type is.
\<close>

theorem calculateProgress_branches:
  "calculateProgress (Some ch)
     = (let qs = concat (map counted_questions
                          (map snd (case sections ch of None \<Rightarrow> [] | Some secs \<Rightarrow> secs)))
        in percent (length (filter completed qs)) (length qs))
   \<and> (sec_type sec = Some ''exercise'' \<and> subExercises sec = Some subs \<longrightarrow>
        counted_questions sec
          = concat (map (\<lambda>ex. case sub_questions ex of None \<Rightarrow> [] | Some l \<Rightarrow> l) (map snd subs))
        \<and> counted_questions (sec\<lparr>questions := qs'\<rparr>) = counted_questions sec)
   \<and> (sec_type sec' \<noteq> Some ''exercise'' \<or> subExercises sec' = None \<longrightarrow>
        counted_questions sec' = (case questions sec' of None \<Rightarrow> [] | Some l \<Rightarrow> l))
   \<and> (sec_type sec' \<noteq> Some ''exercise'' \<longrightarrow>
        counted_questions (sec'\<lparr>subExercises := subs'\<rparr>) = counted_questions sec')"
proof -
  have "calculateProgress (Some ch)
     = (let qs = concat (map counted_questions
                          (map snd (case sections ch of None \<Rightarrow> [] | Some secs \<Rightarrow> secs)))
        in percent (length (filter completed qs)) (length qs))"
    by (cases "sections ch") (simp_all add: calculateProgress_percent chapter_questions_def Let_def)
  then show ?thesis
    by (auto simp: counted_questions_def split: option.splits)
qed

theorem calculateProgress_branches_witness:
  "counted_questions sec_exercise
     = [\<lparr>q_id = ''q-1'', completed = False\<rparr>, \<lparr>q_id = ''q-2'', completed = False\<rparr>]
   \<and> counted_questions (sec_exercise\<lparr>questions := Some [\<lparr>q_id = ''q-1'', completed = True\<rparr>]\<rparr>)
     = counted_questions sec_exercise
   \<and> counted_questions sec_pyqs
     = [\<lparr>q_id = ''q-1'', completed = False\<rparr>, \<lparr>q_id = ''q-2'', completed = True\<rparr>]
   \<and> counted_questions (sec_pyqs\<lparr>subExercises := subExercises sec_exercise\<rparr>)
     = counted_questions sec_pyqs"
  using calculateProgress_branches [of chapter1 sec_exercise
      "[(''a1'', \<lparr>sub_id = ''a1'', sub_name = ''Set A'',
                  sub_questions = Some [\<lparr>q_id = ''q-1'', completed = False\<rparr>,
                                        \<lparr>q_id = ''q-2'', completed = False\<rparr>]\<rparr>)]"
      "Some [\<lparr>q_id = ''q-1'', completed = True\<rparr>]" sec_pyqs "subExercises sec_exercise"]
  by (simp add: sec_exercise_def sec_pyqs_def)

section \<open>Maps with exceptions and with drawn identifiers\<close>

lemma mapE_Inr: "(\<And>x. x \<in> set xs \<Longrightarrow> f x = Inr (g x)) \<Longrightarrow> mapE f xs = Inr (map g xs)"
  by (induction xs) simp_all

lemma mapE_same: "(\<And>x. x \<in> set xs \<Longrightarrow> f x = Inr x) \<Longrightarrow> mapE f xs = Inr xs"
  using mapE_Inr[of xs f "\<lambda>x. x"] by simp

lemma mapS_same: "(\<And>x k. x \<in> set xs \<Longrightarrow> f k x = (x, k)) \<Longrightarrow> mapS f k xs = (xs, k)"
  by (induction xs arbitrary: k) simp_all

lemma mapES_same: "(\<And>x k. x \<in> set xs \<Longrightarrow> f k x = Inr (x, k)) \<Longrightarrow> mapES f k xs = Inr (xs, k)"
  by (induction xs arbitrary: k) simp_all

section \<open>C3: targets that do not exist\<close>

lemma toggleQuestion_miss:
  assumes "\<forall>s\<in>set t. subj_id s = sId \<longrightarrow> cId \<notin> set (map ch_id (chapters s))"
  shows "toggleQuestion t sId cId secId qId subExId = Inr t"
  unfolding toggleQuestion_def
proof (rule mapE_same)
  fix s assume s: "s \<in> set t"
  have "subj_id s = sId \<Longrightarrow>
      mapE (\<lambda>c. if ch_id c \<noteq> cId then Inr c else toggleQuestion_chapter secId qId subExId c)
        (chapters s) = Inr (chapters s)"
    by (rule mapE_same) (use assms s in auto)
  then show "(if subj_id s \<noteq> sId then Inr s
         else case mapE (\<lambda>c. if ch_id c \<noteq> cId then Inr c
                               else toggleQuestion_chapter secId qId subExId c) (chapters s) of
                Inl e \<Rightarrow> Inl e | Inr cs \<Rightarrow> Inr (s\<lparr>chapters := cs\<rparr>)) = Inr s"
    by simp
qed

lemma genQuestions_miss:
  assumes "\<forall>s\<in>set t. subj_id s = sId \<longrightarrow> cId \<notin> set (map ch_id (chapters s))"
  shows "genQuestions t sId cId secId count = Inr t"
  unfolding genQuestions_def
proof (rule mapE_same)
  fix s assume s: "s \<in> set t"
  have "subj_id s = sId \<Longrightarrow>
      mapE (\<lambda>c. if ch_id c \<noteq> cId then Inr c else genQuestions_chapter secId count c)
        (chapters s) = Inr (chapters s)"
    by (rule mapE_same) (use assms s in auto)
  then show "(if subj_id s \<noteq> sId then Inr s
         else case mapE (\<lambda>c. if ch_id c \<noteq> cId then Inr c
                               else genQuestions_chapter secId count c) (chapters s) of
                Inl e \<Rightarrow> Inl e | Inr cs \<Rightarrow> Inr (s\<lparr>chapters := cs\<rparr>)) = Inr s"
    by simp
qed

lemma addSubExercise_miss:
  assumes "\<forall>s\<in>set t. subj_id s = sId \<longrightarrow> cId \<notin> set (map ch_id (chapters s))"
  shows "addSubExercise uuid k t sId cId secId name qCount = Inr (t, k)"
  unfolding addSubExercise_def
proof (rule mapES_same)
  fix s k assume s: "s \<in> set t"
  have "subj_id s = sId \<Longrightarrow>
      mapES (\<lambda>k c. if ch_id c \<noteq> cId then Inr (c, k)
                     else addSubExercise_chapter uuid k secId name qCount c)
        k (chapters s) = Inr (chapters s, k)"
    by (rule mapES_same) (use assms s in auto)
  then show "(if subj_id s \<noteq> sId then Inr (s, k)
         else case mapES (\<lambda>k c. if ch_id c \<noteq> cId then Inr (c, k)
                                  else addSubExercise_chapter uuid k secId name qCount c)
                     k (chapters s) of
                Inl e \<Rightarrow> Inl e | Inr (cs, k') \<Rightarrow> Inr (s\<lparr>chapters := cs\<rparr>, k')) = Inr (s, k)"
    by simp
qed

lemma addGenericSection_miss:
  assumes "\<forall>s\<in>set t. subj_id s = sId \<longrightarrow> cId \<notin> set (map ch_id (chapters s))"
  shows "addGenericSection uuid k t sId cId lbl = (t, k)"
  unfolding addGenericSection_def
proof (rule mapS_same)
  fix s k assume s: "s \<in> set t"
  have "subj_id s = sId \<Longrightarrow>
      mapS (\<lambda>k c. if ch_id c \<noteq> cId then (c, k) else addGenericSection_chapter uuid k lbl c)
        k (chapters s) = (chapters s, k)"
    by (rule mapS_same) (use assms s in auto)
  then show "(if subj_id s \<noteq> sId then (s, k)
         else case mapS (\<lambda>k c. if ch_id c \<noteq> cId then (c, k)
                                 else addGenericSection_chapter uuid k lbl c)
                     k (chapters s) of
                (cs, k') \<Rightarrow> (s\<lparr>chapters := cs\<rparr>, k')) = (s, k)"
    by simp
qed

lemma deleteChapter_miss:
  assumes "\<forall>s\<in>set t. subj_id s = sId \<longrightarrow> cId \<notin> set (map ch_id (chapters s))"
  shows "deleteChapter t sId cId = t"
proof -
  have "\<And>s. s \<in> set t \<Longrightarrow> subj_id s = sId \<Longrightarrow> filter (\<lambda>c. ch_id c \<noteq> cId) (chapters s) = chapters s"
    using assms by (auto simp: filter_id_conv)
  then show ?thesis by (simp add: deleteChapter_def map_idI)
qed

lemma addChapter_miss:
  assumes "sId \<notin> set (map subj_id t)"
  shows "fst (addChapter uuid k t sId name kinds) = t"
proof -
  have "\<And>k1 secs. mapS (\<lambda>k s. if subj_id s = sId
            then (s\<lparr>chapters := chapters s @
                    [\<lparr>ch_id = uuid k, ch_name = name, progress = 0, sections = Some secs\<rparr>]\<rparr>, k + 1)
            else (s, k)) k1 t = (t, k1)"
    by (rule mapS_same) (use assms in auto)
  then show ?thesis by (simp add: addChapter_def split: prod.splits)
qed

text \<open>
  C3 reads: when one of the supplied identifiers (subject, chapter, section, sub-exercise) does
  not exist, every mutation returns the tree unchanged and never throws. A section that does
  not exist makes \<^verbatim>\<open>toggleQuestion\<close> read \<^verbatim>\<open>sec.questions\<close> of \<^verbatim>\<open>undefined\<close>.
\<close>

theorem C3_counterexample:
  "toggleQuestion tree1 ''s1'' ''c1'' ''missing'' ''q-1'' None = Inl TypeError"
  by (simp add: toggleQuestion_def toggleQuestion_chapter_def tree1_def chapter1_def truthy_def)


text \<open>
  C3 as the code has it: when the subject does not exist (\<^verbatim>\<open>addChapter\<close>), or the subject or
  the chapter does not exist (the other five mutations), the callbacks of the nested \<^verbatim>\<open>map\<close>
  calls return every element as it is: the tree is unchanged and nothing is thrown.
\<close>

theorem missing_target_unchanged:
  "(sId \<notin> set (map subj_id t) \<longrightarrow> fst (addChapter uuid k t sId name kinds) = t)
   \<and> ((\<forall>s\<in>set t. subj_id s = sId \<longrightarrow> cId \<notin> set (map ch_id (chapters s))) \<longrightarrow>
        toggleQuestion t sId cId secId qId subExId = Inr t
        \<and> genQuestions t sId cId secId count = Inr t
        \<and> addSubExercise uuid k t sId cId secId name qCount = Inr (t, k)
        \<and> addGenericSection uuid k t sId cId lbl = (t, k)
        \<and> deleteChapter t sId cId = t)"
proof (intro conjI impI)
  assume "sId \<notin> set (map subj_id t)"
  then show "fst (addChapter uuid k t sId name kinds) = t" by (rule addChapter_miss)
next
  assume m: "\<forall>s\<in>set t. subj_id s = sId \<longrightarrow> cId \<notin> set (map ch_id (chapters s))"
  show "toggleQuestion t sId cId secId qId subExId = Inr t" by (rule toggleQuestion_miss[OF m])
  show "genQuestions t sId cId secId count = Inr t" by (rule genQuestions_miss[OF m])
  show "addSubExercise uuid k t sId cId secId name qCount = Inr (t, k)"
    by (rule addSubExercise_miss[OF m])
  show "addGenericSection uuid k t sId cId lbl = (t, k)" by (rule addGenericSection_miss[OF m])
  show "deleteChapter t sId cId = t" by (rule deleteChapter_miss[OF m])
qed

theorem missing_target_unchanged_witness:
  "''s9'' \<notin> set (map subj_id tree1)
   \<and> fst (addChapter uuid0 0 tree1 ''s9'' ''Sets'' [''EXERCISE'']) = tree1
   \<and> toggleQuestion tree1 ''s1'' ''c9'' ''x1'' ''q-1'' None = Inr tree1
   \<and> genQuestions tree1 ''s1'' ''c9'' ''x1'' (Some 5) = Inr tree1
   \<and> addSubExercise uuid0 0 tree1 ''s1'' ''c9'' ''e1'' ''Set B'' (Some 4) = Inr (tree1, 0)
   \<and> addGenericSection uuid0 0 tree1 ''s1'' ''c9'' ''NOTES'' = (tree1, 0)
   \<and> deleteChapter tree1 ''s1'' ''c9'' = tree1"
proof -
  have a: "''s9'' \<notin> set (map subj_id tree1)" by (simp add: tree1_def)
  have b: "\<forall>s\<in>set tree1. subj_id s = ''s1'' \<longrightarrow> ''c9'' \<notin> set (map ch_id (chapters s))"
    by (simp add: tree1_def chapter1_def)
  show ?thesis
    using a b
      missing_target_unchanged [where sId = "''s9''" and t = tree1 and uuid = uuid0 and k = 0
        and name = "''Sets''" and kinds = "[''EXERCISE'']"]
      missing_target_unchanged [where sId = "''s1''" and t = tree1 and uuid = uuid0 and k = 0
        and cId = "''c9''" and secId = "''x1''" and qId = "''q-1''" and subExId = None
        and count = "Some 5" and lbl = "''NOTES''"]
      missing_target_unchanged [where sId = "''s1''" and t = tree1 and uuid = uuid0 and k = 0
        and cId = "''c9''" and secId = "''e1''" and name = "''Set B''" and qCount = "Some 4"]
    by simp
qed

section \<open>C2: the shape of a section\<close>

lemma set_update_subset: "set (AList.update k v al) \<subseteq> insert (k, v) (set al)"
  by (induction al) auto

lemma created_section_Cons: "created_section kinds key sec \<Longrightarrow> created_section (type # kinds) key sec"
  by (auto simp: created_section_def)

lemma addChapter_sections_created:
  "(key, sec) \<in> set (fst (addChapter_sections uuid k kinds acc)) \<Longrightarrow>
     (key, sec) \<in> set acc \<or> created_section kinds key sec"
proof (induction kinds arbitrary: k acc)
  case Nil
  then show ?case by simp
next
  case (Cons type kinds)
  let ?new = "\<lparr>sec_id = Some (uuid k), label = Some type, sec_type = Some (toLowerCase type),
               questions = Some [],
               subExercises = (if type = ''EXERCISE'' then Some [] else None)\<rparr>"
  from Cons.prems have "(key, sec) \<in> set (fst (addChapter_sections uuid (k + 1) kinds
      (AList.update (uuid k) ?new acc)))"
    by (simp add: Let_def)
  then have "(key, sec) \<in> set (AList.update (uuid k) ?new acc) \<or> created_section kinds key sec"
    by (rule Cons.IH)
  then consider "(key, sec) = (uuid k, ?new)" | "(key, sec) \<in> set acc" | "created_section kinds key sec"
    using set_update_subset[of "uuid k" ?new acc] by auto
  then show ?case
  proof cases
    case 1
    then show ?thesis by (auto simp: created_section_def)
  next
    case 2
    then show ?thesis by simp
  next
    case 3
    then show ?thesis by (simp add: created_section_Cons)
  qed
qed

lemma mapS_fst_Cons:
  "fst (mapS f k (x # xs)) = fst (f k x) # fst (mapS f (snd (f k x)) xs)"
  by (simp split: prod.splits)

lemma mapS_append_chapter:
  "list_all2 (\<lambda>s s'. if subj_id s = sId
                      then \<exists>j. s' = s\<lparr>chapters := chapters s @ [newc j]\<rparr>
                      else s' = s)
     t (fst (mapS (\<lambda>k s. if subj_id s = sId
                          then (s\<lparr>chapters := chapters s @ [newc k]\<rparr>, k + 1)
                          else (s, k)) k t))"
  by (induction t arbitrary: k) (auto simp add: mapS_fst_Cons simp del: mapS.simps(2))

text \<open>
  C2 reads: every section in a tree produced by the mutations holds either a direct question
  list or a sub-exercise map, never both, and a section that \<^verbatim>\<open>addChapter\<close> creates for the
  exercise kind carries only an empty sub-exercise map. \<^verbatim>\<open>addChapter\<close> writes
  \<^verbatim>\<open>questions: []\<close> into every section and adds \<^verbatim>\<open>subExercises: {}\<close> for the kind
  \<^verbatim>\<open>'EXERCISE'\<close>: that section holds both.
\<close>

theorem C2_counterexample:
  "tree_sections (fst (addChapter uuid0 0 tree0 ''s1'' ''Algebra'' [''EXERCISE'']))
     = [\<lparr>sec_id = Some ''uuid-0'', label = Some ''EXERCISE'', sec_type = Some ''exercise'',
         questions = Some [], subExercises = Some []\<rparr>]
   \<and> \<not> list_all one_shape
         (tree_sections (fst (addChapter uuid0 0 tree0 ''s1'' ''Algebra'' [''EXERCISE''])))"
  by (simp add: addChapter_def tree0_def tree_sections_def one_shape_def uuid0_def
      show_nat.simps digit_char_def toLowerCase_def upper_case_letters_def lower_case_letters_def Let_def)


text \<open>
  C2 as the code has it: \<^verbatim>\<open>addChapter\<close> appends one chapter with progress 0 to every subject
  with the given identifier and leaves the other subjects as they are; every section of the
  new chapter carries an empty question list, and it carries a sub-exercise map, an empty one,
  exactly when its kind is \<^verbatim>\<open>'EXERCISE'\<close>.
\<close>

theorem addChapter_sections_shape:
  "list_all2
     (\<lambda>s s'. if subj_id s = sId
              then \<exists>c. s' = s\<lparr>chapters := chapters s @ [c]\<rparr> \<and> ch_name c = name \<and> progress c = 0
                     \<and> (\<exists>secs. sections c = Some secs
                          \<and> (\<forall>(key, sec) \<in> set secs. created_section kinds key sec))
              else s' = s)
     t (fst (addChapter uuid k t sId name kinds))"
proof -
  obtain secs k1 where a: "addChapter_sections uuid k kinds [] = (secs, k1)"
    by (cases "addChapter_sections uuid k kinds []")
  have c: "\<forall>(key, sec) \<in> set secs. created_section kinds key sec"
    using addChapter_sections_created[of _ _ uuid k kinds "[]"] a by auto
  let ?newc = "\<lambda>j. \<lparr>ch_id = uuid j, ch_name = name, progress = 0, sections = Some secs\<rparr>"
  have "list_all2 (\<lambda>s s'. if subj_id s = sId
                      then \<exists>j. s' = s\<lparr>chapters := chapters s @ [?newc j]\<rparr>
                      else s' = s)
     t (fst (addChapter uuid k t sId name kinds))"
    using mapS_append_chapter[of sId ?newc t k1] by (simp add: addChapter_def a)
  then show ?thesis
    by (rule list_all2_mono) (use c in \<open>auto split: if_splits\<close>)
qed

theorem addChapter_sections_shape_witness:
  "fst (addChapter uuid0 0 tree0 ''s1'' ''Algebra'' [''EXAMPLES'', ''EXERCISE''])
     = [\<lparr>subj_id = ''s1'', subj_name = ''Math'', chapters =
          [\<lparr>ch_id = ''uuid-2'', ch_name = ''Algebra'', progress = 0, sections = Some
             [(''uuid-0'', \<lparr>sec_id = Some ''uuid-0'', label = Some ''EXAMPLES'',
                             sec_type = Some ''examples'', questions = Some [],
                             subExercises = None\<rparr>),
              (''uuid-1'', \<lparr>sec_id = Some ''uuid-1'', label = Some ''EXERCISE'',
                             sec_type = Some ''exercise'', questions = Some [],
                             subExercises = Some []\<rparr>)]\<rparr>]\<rparr>]
   \<and> created_section [''EXAMPLES'', ''EXERCISE''] ''uuid-1''
        \<lparr>sec_id = Some ''uuid-1'', label = Some ''EXERCISE'', sec_type = Some ''exercise'',
         questions = Some [], subExercises = Some []\<rparr>"
proof -
  let ?t = "fst (addChapter uuid0 0 tree0 ''s1'' ''Algebra'' [''EXAMPLES'', ''EXERCISE''])"
  let ?secs = "[(''uuid-0'', \<lparr>sec_id = Some ''uuid-0'', label = Some ''EXAMPLES'',
                             sec_type = Some ''examples'', questions = Some [],
                             subExercises = None\<rparr>),
              (''uuid-1'', \<lparr>sec_id = Some ''uuid-1'', label = Some ''EXERCISE'',
                             sec_type = Some ''exercise'', questions = Some [],
                             subExercises = Some []\<rparr>)]"
  have e: "?t = [\<lparr>subj_id = ''s1'', subj_name = ''Math'', chapters =
          [\<lparr>ch_id = ''uuid-2'', ch_name = ''Algebra'', progress = 0, sections = Some ?secs\<rparr>]\<rparr>]"
    by (simp add: addChapter_def tree0_def uuid0_def show_nat.simps digit_char_def
        toLowerCase_def upper_case_letters_def lower_case_letters_def Let_def)
  have "list_all2
     (\<lambda>s s'. if subj_id s = ''s1''
              then \<exists>c. s' = s\<lparr>chapters := chapters s @ [c]\<rparr> \<and> ch_name c = ''Algebra'' \<and> progress c = 0
                     \<and> (\<exists>secs. sections c = Some secs
                          \<and> (\<forall>(key, sec) \<in> set secs.
                                created_section [''EXAMPLES'', ''EXERCISE''] key sec))
              else s' = s)
     tree0 ?t"
    by (rule addChapter_sections_shape)
  then have "\<forall>(key, sec) \<in> set ?secs. created_section [''EXAMPLES'', ''EXERCISE''] key sec"
    unfolding e by (auto simp: tree0_def)
  then have "created_section [''EXAMPLES'', ''EXERCISE''] ''uuid-1''
        \<lparr>sec_id = Some ''uuid-1'', label = Some ''EXERCISE'', sec_type = Some ''exercise'',
         questions = Some [], subExercises = Some []\<rparr>"
    by simp
  with e show ?thesis by simp
qed

section \<open>The chapters that a mutation works on\<close>

lemma in_addressed_chapters:
  "s \<in> set t \<Longrightarrow> subj_id s = sId \<Longrightarrow> c \<in> set (chapters s) \<Longrightarrow> ch_id c = cId
     \<Longrightarrow> c \<in> set (addressed_chapters t sId cId)"
  by (auto simp: addressed_chapters_def)

lemma mapE_chapters:
  assumes "\<And>c. c \<in> set (addressed_chapters t sId cId) \<Longrightarrow> f c = Inr (g c)"
  shows "mapE (\<lambda>s. if subj_id s \<noteq> sId then Inr s
                   else (case mapE (\<lambda>c. if ch_id c \<noteq> cId then Inr c else f c) (chapters s) of
                           Inl e \<Rightarrow> Inl e
                         | Inr cs \<Rightarrow> Inr (s\<lparr>chapters := cs\<rparr>))) t
         = Inr (map_chapters sId cId g t)"
  unfolding map_chapters_def
proof (rule mapE_Inr)
  fix s assume s: "s \<in> set t"
  have "subj_id s = sId \<Longrightarrow>
      mapE (\<lambda>c. if ch_id c \<noteq> cId then Inr c else f c) (chapters s)
        = Inr (map (\<lambda>c. if ch_id c \<noteq> cId then c else g c) (chapters s))"
    by (rule mapE_Inr) (use assms s in \<open>auto simp: in_addressed_chapters\<close>)
  then show "(if subj_id s \<noteq> sId then Inr s
         else case mapE (\<lambda>c. if ch_id c \<noteq> cId then Inr c else f c) (chapters s) of
                Inl e \<Rightarrow> Inl e | Inr cs \<Rightarrow> Inr (s\<lparr>chapters := cs\<rparr>))
      = Inr (if subj_id s \<noteq> sId then s
             else s\<lparr>chapters := map (\<lambda>c. if ch_id c \<noteq> cId then c else g c) (chapters s)\<rparr>)"
    by simp
qed

lemma filter_map_addressed:
  assumes "\<And>c. ch_id c = cId \<Longrightarrow> ch_id (g c) = cId"
  shows "filter (\<lambda>c. ch_id c = cId) (map (\<lambda>c. if ch_id c \<noteq> cId then c else g c) cs)
         = map g (filter (\<lambda>c. ch_id c = cId) cs)"
  using assms by (induction cs) auto

lemma addressed_map_chapters:
  assumes "\<And>c. ch_id c = cId \<Longrightarrow> ch_id (g c) = cId"
  shows "addressed_chapters (map_chapters sId cId g t) sId cId = map g (addressed_chapters t sId cId)"
proof (induction t)
  case Nil
  then show ?case by (simp add: addressed_chapters_def map_chapters_def)
next
  case (Cons s t)
  then show ?case
    using filter_map_addressed[of cId g "chapters s", OF assms]
    by (simp add: addressed_chapters_def map_chapters_def)
qed

lemma map_chapters_cong:
  assumes "\<And>c. c \<in> set (addressed_chapters t sId cId) \<Longrightarrow> g c = h c"
  shows "map_chapters sId cId g t = map_chapters sId cId h t"
  unfolding map_chapters_def
proof (rule map_cong[OF refl])
  fix s assume s: "s \<in> set t"
  have "subj_id s = sId \<Longrightarrow>
      map (\<lambda>c. if ch_id c \<noteq> cId then c else g c) (chapters s)
        = map (\<lambda>c. if ch_id c \<noteq> cId then c else h c) (chapters s)"
    by (rule map_cong[OF refl]) (use assms s in \<open>auto simp: in_addressed_chapters\<close>)
  then show "(if subj_id s \<noteq> sId then s
          else s\<lparr>chapters := map (\<lambda>c. if ch_id c \<noteq> cId then c else g c) (chapters s)\<rparr>)
      = (if subj_id s \<noteq> sId then s
          else s\<lparr>chapters := map (\<lambda>c. if ch_id c \<noteq> cId then c else h c) (chapters s)\<rparr>)"
    by simp
qed

lemma map_chapters_same:
  assumes "\<And>c. c \<in> set (addressed_chapters t sId cId) \<Longrightarrow> g c = c"
  shows "map_chapters sId cId g t = t"
proof -
  have "map_chapters sId cId g t = map_chapters sId cId (\<lambda>c. c) t"
    by (rule map_chapters_cong) (use assms in simp)
  also have "\<dots> = t" by (simp add: map_chapters_def map_idI)
  finally show ?thesis .
qed

lemma map_chapters_comp:
  assumes "\<And>c. ch_id c = cId \<Longrightarrow> ch_id (g1 c) = cId"
  shows "map_chapters sId cId g2 (map_chapters sId cId g1 t) = map_chapters sId cId (\<lambda>c. g2 (g1 c)) t"
  using assms by (auto simp: map_chapters_def)

section \<open>C5: toggling a question twice\<close>

lemma toggle_list_twice: "toggle_list qId (toggle_list qId qs) = qs"
  by (induction qs) (auto simp: toggle_list_def)

lemma calculateProgress_ignores_progress:
  "calculateProgress (Some (c\<lparr>progress := p\<rparr>)) = calculateProgress (Some c)"
  by (simp add: calculateProgress_def)

lemma with_sections_ch_id: "ch_id (with_sections c secs) = ch_id c"
  by (simp add: with_sections_def)

lemma with_sections_back:
  "sections c = Some secs \<Longrightarrow> with_sections (with_sections c secs') secs = refresh_progress c"
  by (cases c) (simp add: with_sections_def refresh_progress_def calculateProgress_def)

lemma toggleQuestion_chapter_twice:
  assumes "has_question_list secId subExId c"
  shows "\<exists>c'. toggleQuestion_chapter secId qId subExId c = Inr c' \<and> ch_id c' = ch_id c
            \<and> toggleQuestion_chapter secId qId subExId c' = Inr (refresh_progress c)"
proof -
  from assms obtain secs sec where secs: "sections c = Some secs"
    and sec: "map_of secs secId = Some sec"
    by (auto simp: has_question_list_def split: option.splits)
  show ?thesis
  proof (cases "truthy subExId")
    case None
    with assms secs sec obtain qs where qs: "questions sec = Some qs"
      by (auto simp: has_question_list_def)
    let ?sec' = "sec\<lparr>questions := Some (toggle_list qId qs)\<rparr>"
    let ?c' = "with_sections c (AList.update secId ?sec' secs)"
    have 1: "toggleQuestion_chapter secId qId subExId c = Inr ?c'"
      by (simp add: toggleQuestion_chapter_def secs sec None qs)
    have s: "?sec'\<lparr>questions := Some qs\<rparr> = sec" using qs by (cases sec) simp
    have "toggleQuestion_chapter secId qId subExId ?c'
        = Inr (with_sections ?c' (AList.update secId sec secs))"
      by (simp add: toggleQuestion_chapter_def None with_sections_def update_conv
          toggle_list_twice s)
    also have "AList.update secId sec secs = secs" by (rule update_triv[OF sec])
    also have "with_sections ?c' secs = refresh_progress c" by (rule with_sections_back[OF secs])
    finally have 2: "toggleQuestion_chapter secId qId subExId ?c' = Inr (refresh_progress c)" .
    from 1 2 show ?thesis by (simp add: with_sections_ch_id)
  next
    case (Some sx)
    with assms secs sec obtain subs sub qs where subs: "subExercises sec = Some subs"
      and sub: "map_of subs sx = Some sub" and qs: "sub_questions sub = Some qs"
      by (auto simp: has_question_list_def split: option.splits)
    let ?sub' = "sub\<lparr>sub_questions := Some (toggle_list qId qs)\<rparr>"
    let ?sec' = "sec\<lparr>subExercises := Some (AList.update sx ?sub' subs)\<rparr>"
    let ?c' = "with_sections c (AList.update secId ?sec' secs)"
    have 1: "toggleQuestion_chapter secId qId subExId c = Inr ?c'"
      by (simp add: toggleQuestion_chapter_def secs sec Some subs sub qs)
    have s1: "?sub'\<lparr>sub_questions := Some qs\<rparr> = sub" using qs by (cases sub) simp
    have s2: "AList.update sx sub subs = subs" by (rule update_triv[OF sub])
    have s3: "?sec'\<lparr>subExercises := Some subs\<rparr> = sec" using subs by (cases sec) simp
    have "toggleQuestion_chapter secId qId subExId ?c'
        = Inr (with_sections ?c' (AList.update secId sec secs))"
      by (simp add: toggleQuestion_chapter_def Some with_sections_def update_conv
          toggle_list_twice s1 s2 s3)
    also have "AList.update secId sec secs = secs" by (rule update_triv[OF sec])
    also have "with_sections ?c' secs = refresh_progress c" by (rule with_sections_back[OF secs])
    finally have 2: "toggleQuestion_chapter secId qId subExId ?c' = Inr (refresh_progress c)" .
    from 1 2 show ?thesis by (simp add: with_sections_ch_id)
  qed
qed

lemma toggleQuestion_chapter_ch_id:
  "toggleQuestion_chapter secId qId subExId c = Inr c' \<Longrightarrow> ch_id c' = ch_id c"
  by (auto simp: toggleQuestion_chapter_def with_sections_def split: option.splits)

lemma addressed_questions_refresh:
  "addressed_questions secId subExId (refresh_progress c) = addressed_questions secId subExId c"
  by (simp add: addressed_questions_def refresh_progress_def)

lemma calculateProgress_refresh:
  "calculateProgress (Some (refresh_progress c)) = calculateProgress (Some c)"
  by (simp add: refresh_progress_def calculateProgress_ignores_progress)

lemma percent_1_4: "percent (Suc 0) (Suc (Suc (Suc (Suc 0)))) = 25"
proof -
  have "percent 1 4 = 25" by code_simp
  then show ?thesis by (simp add: eval_nat_numeral)
qed

lemma percent_2_4: "percent (Suc (Suc 0)) (Suc (Suc (Suc (Suc 0)))) = 50"
proof -
  have "percent 2 4 = 50" by code_simp
  then show ?thesis by (simp add: eval_nat_numeral)
qed

lemma chapter1_progress: "calculateProgress (Some chapter1) = 25"
  by (simp add: calculateProgress_percent chapter_questions_def counted_questions_def
      chapter1_def sec_pyqs_def sec_exercise_def percent_1_4)

text \<open>
  C5: in a tree that contains the addressed question list, two calls of \<^verbatim>\<open>toggleQuestion\<close> with
  the same arguments both return, every completed flag of the addressed list is back at its
  value, and so is the progress of the chapter. The second tree is the first one with the
  cached progress of the addressed chapter recomputed; it is the first tree itself when that
  cache was up to date.
\<close>

theorem toggleQuestion_twice:
  assumes "\<forall>c\<in>set (addressed_chapters t sId cId). has_question_list secId subExId c"
  shows "\<exists>t1 t2. toggleQuestion t sId cId secId qId subExId = Inr t1
           \<and> toggleQuestion t1 sId cId secId qId subExId = Inr t2
           \<and> t2 = map_chapters sId cId refresh_progress t
           \<and> map (addressed_questions secId subExId) (addressed_chapters t2 sId cId)
               = map (addressed_questions secId subExId) (addressed_chapters t sId cId)
           \<and> map (\<lambda>c. calculateProgress (Some c)) (addressed_chapters t2 sId cId)
               = map (\<lambda>c. calculateProgress (Some c)) (addressed_chapters t sId cId)
           \<and> ((\<forall>c\<in>set (addressed_chapters t sId cId). progress c = calculateProgress (Some c))
                \<longrightarrow> t2 = t)"
proof -
  define f where "f = toggleQuestion_chapter secId qId subExId"
  define g where "g = (\<lambda>c. case f c of Inr c' \<Rightarrow> c' | Inl e \<Rightarrow> c)"
  let ?t1 = "map_chapters sId cId g t"
  let ?t2 = "map_chapters sId cId refresh_progress t"
  have g_id: "ch_id (g c) = ch_id c" for c
    unfolding g_def f_def
    by (cases "toggleQuestion_chapter secId qId subExId c")
       (simp_all add: toggleQuestion_chapter_ch_id)
  have step: "f c = Inr (g c) \<and> f (g c) = Inr (refresh_progress c)"
    if "c \<in> set (addressed_chapters t sId cId)" for c
  proof -
    from that assms have "has_question_list secId subExId c" by simp
    from toggleQuestion_chapter_twice[OF this, of qId]
    show ?thesis by (auto simp: g_def f_def)
  qed
  have 1: "toggleQuestion t sId cId secId qId subExId = Inr ?t1"
    unfolding toggleQuestion_def f_def[symmetric]
    by (rule mapE_chapters) (simp add: step)
  have a1: "addressed_chapters ?t1 sId cId = map g (addressed_chapters t sId cId)"
    by (rule addressed_map_chapters) (simp add: g_id)
  have "toggleQuestion ?t1 sId cId secId qId subExId = Inr (map_chapters sId cId g ?t1)"
    unfolding toggleQuestion_def f_def[symmetric]
  proof (rule mapE_chapters)
    fix c1 assume "c1 \<in> set (addressed_chapters ?t1 sId cId)"
    then obtain c where c: "c \<in> set (addressed_chapters t sId cId)" and c1: "c1 = g c"
      unfolding a1 by auto
    from step[OF c] have "f c1 = Inr (refresh_progress c)" by (simp add: c1)
    then show "f c1 = Inr (g c1)" by (simp add: g_def)
  qed
  also have "map_chapters sId cId g ?t1 = map_chapters sId cId (\<lambda>c. g (g c)) t"
    by (rule map_chapters_comp) (simp add: g_id)
  also have "\<dots> = ?t2"
  proof (rule map_chapters_cong)
    fix c assume "c \<in> set (addressed_chapters t sId cId)"
    from step[OF this] show "g (g c) = refresh_progress c" by (simp add: g_def)
  qed
  finally have 2: "toggleQuestion ?t1 sId cId secId qId subExId = Inr ?t2" .
  have a2: "addressed_chapters ?t2 sId cId = map refresh_progress (addressed_chapters t sId cId)"
    by (rule addressed_map_chapters) (simp add: refresh_progress_def)
  have 3: "map (addressed_questions secId subExId) (addressed_chapters ?t2 sId cId)
             = map (addressed_questions secId subExId) (addressed_chapters t sId cId)"
    by (simp add: a2 addressed_questions_refresh)
  have 4: "map (\<lambda>c. calculateProgress (Some c)) (addressed_chapters ?t2 sId cId)
             = map (\<lambda>c. calculateProgress (Some c)) (addressed_chapters t sId cId)"
    by (simp add: a2 calculateProgress_refresh)
  have 5: "?t2 = t" if "\<forall>c\<in>set (addressed_chapters t sId cId). progress c = calculateProgress (Some c)"
    by (rule map_chapters_same) (use that in \<open>simp add: refresh_progress_def\<close>)
  from 1 2 3 4 5 show ?thesis by blast
qed

theorem toggleQuestion_twice_witness:
  "toggleQuestion tree1 ''s1'' ''c1'' ''x1'' ''q-1'' None = Inr tree1_toggled
   \<and> toggleQuestion tree1_toggled ''s1'' ''c1'' ''x1'' ''q-1'' None = Inr tree1"
proof -
  have h: "\<forall>c\<in>set (addressed_chapters tree1 ''s1'' ''c1''). has_question_list ''x1'' None c"
    by (simp add: addressed_chapters_def tree1_def chapter1_def has_question_list_def truthy_def
        sec_pyqs_def)
  have p: "\<forall>c\<in>set (addressed_chapters tree1 ''s1'' ''c1''). progress c = calculateProgress (Some c)"
    using chapter1_progress by (simp add: addressed_chapters_def tree1_def) (simp add: chapter1_def)
  have e: "toggleQuestion tree1 ''s1'' ''c1'' ''x1'' ''q-1'' None = Inr tree1_toggled"
    by (simp add: toggleQuestion_def toggleQuestion_chapter_def tree1_def chapter1_def truthy_def
        sec_pyqs_def sec_exercise_def toggle_list_def with_sections_def tree1_toggled_def
        calculateProgress_percent chapter_questions_def counted_questions_def percent_2_4)
  from toggleQuestion_twice[OF h, of "''q-1''"] p e show ?thesis by auto
qed

section \<open>C6 and C10: generating questions\<close>

lemma percent_none_completed: "percent 0 t = 0"
  by (simp add: percent_def Math_round_def js_mul_def js_div_def fl_0 floor_eq_iff)

lemma calculateProgress_with_sections:
  "progress (with_sections c secs) = calculateProgress (Some (with_sections c secs))"
  by (simp add: with_sections_def calculateProgress_def)

lemma map_of_in_keys: "map_of al k = Some v \<Longrightarrow> k \<in> set (map fst al)"
  by (induction al) (auto split: if_splits)

lemma fresh_questions_5: "fresh_questions (Some 5) = Inr five_questions"
  by (simp add: fresh_questions_def ToLength_def new_question_def show_nat.simps digit_char_def
      upt_conv_Cons five_questions_def)

lemma fresh_questions_nonpositive: "n \<le> 0 \<Longrightarrow> fresh_questions (Some n) = Inr []"
  by (simp add: fresh_questions_def ToLength_def)

lemma genQuestions_chapter_effect:
  assumes "has_section secId c" and "fresh_questions count = Inr qs"
  shows "\<exists>c'. genQuestions_chapter secId count c = Inr c' \<and> questions_replaced secId qs c c'"
proof -
  from assms(1) obtain secs sec where secs: "sections c = Some secs"
    and sec: "map_of secs secId = Some sec"
    by (auto simp: has_section_def split: option.splits)
  let ?c' = "with_sections c (AList.update secId (sec\<lparr>questions := Some qs\<rparr>) secs)"
  have 1: "genQuestions_chapter secId count c = Inr ?c'"
    by (simp add: genQuestions_chapter_def assms(2) secs sec)
  have k: "map fst (AList.update secId (sec\<lparr>questions := Some qs\<rparr>) secs) = map fst secs"
    using map_of_in_keys[OF sec] by (simp add: update_keys)
  have s: "sections ?c' = Some (AList.update secId (sec\<lparr>questions := Some qs\<rparr>) secs)"
    "ch_id ?c' = ch_id c" "ch_name ?c' = ch_name c"
    by (simp_all add: with_sections_def)
  have "questions_replaced secId qs c ?c'"
    unfolding questions_replaced_def
    by (simp add: secs sec s k update_conv calculateProgress_with_sections)
  with 1 show ?thesis by blast
qed

lemma genQuestions_chapter_ch_id:
  "genQuestions_chapter secId count c = Inr c' \<Longrightarrow> ch_id c' = ch_id c"
  by (auto simp: genQuestions_chapter_def with_sections_def split: sum.splits option.splits)

lemma genQuestions_effect:
  assumes "\<forall>c\<in>set (addressed_chapters t sId cId). has_section secId c"
    and "fresh_questions count = Inr qs"
  shows "\<exists>t'. genQuestions t sId cId secId count = Inr t'
           \<and> list_all2 (questions_replaced secId qs)
                (addressed_chapters t sId cId) (addressed_chapters t' sId cId)"
proof -
  define f where "f = genQuestions_chapter secId count"
  define g where "g = (\<lambda>c. case f c of Inr c' \<Rightarrow> c' | Inl e \<Rightarrow> c)"
  let ?t' = "map_chapters sId cId g t"
  have g_id: "ch_id (g c) = ch_id c" for c
    unfolding g_def f_def
    by (cases "genQuestions_chapter secId count c") (simp_all add: genQuestions_chapter_ch_id)
  have step: "f c = Inr (g c) \<and> questions_replaced secId qs c (g c)"
    if "c \<in> set (addressed_chapters t sId cId)" for c
  proof -
    from that assms(1) have "has_section secId c" by simp
    from genQuestions_chapter_effect[OF this assms(2)]
    show ?thesis by (auto simp: g_def f_def)
  qed
  have 1: "genQuestions t sId cId secId count = Inr ?t'"
    unfolding genQuestions_def f_def[symmetric]
    by (rule mapE_chapters) (simp add: step)
  have a: "addressed_chapters ?t' sId cId = map g (addressed_chapters t sId cId)"
    by (rule addressed_map_chapters) (simp add: g_id)
  have "list_all2 (questions_replaced secId qs)
          (addressed_chapters t sId cId) (addressed_chapters ?t' sId cId)"
    unfolding a by (simp add: list_all2_map2 list_all2_same step)
  with 1 show ?thesis by blast
qed

lemma tree1_has_x1: "\<forall>c\<in>set (addressed_chapters tree1 ''s1'' ''c1''). has_section ''x1'' c"
  by (simp add: addressed_chapters_def tree1_def chapter1_def has_section_def)

lemma genQuestions_tree1_five: "genQuestions tree1 ''s1'' ''c1'' ''x1'' (Some 5) = Inr tree1_five"
  by (simp add: genQuestions_def genQuestions_chapter_def fresh_questions_5 tree1_def chapter1_def
      with_sections_def tree1_five_def calculateProgress_percent chapter_questions_def
      counted_questions_def sec_pyqs_def sec_exercise_def five_questions_def percent_none_completed)

lemma genQuestions_tree1_reset: "genQuestions tree1 ''s1'' ''c1'' ''x1'' (Some 0) = Inr tree1_reset"
  by (simp add: genQuestions_def genQuestions_chapter_def fresh_questions_nonpositive tree1_def
      chapter1_def with_sections_def tree1_reset_def calculateProgress_percent
      chapter_questions_def counted_questions_def sec_pyqs_def sec_exercise_def
      percent_none_completed)

text \<open>
  C6: in a tree that contains the addressed section, \<^verbatim>\<open>genQuestions\<close> with the count 5 returns
  and replaces the question list of that section by the five questions \<open>q-1\<close> to \<open>q-5\<close>, none
  of them completed, whatever the list was before; with the count 0 the new list is empty. The
  other sections keep their value and the progress of the chapter is recomputed.
\<close>

theorem genQuestions_five_and_reset:
  assumes "\<forall>c\<in>set (addressed_chapters t sId cId). has_section secId c"
  shows "\<exists>t5 t0. genQuestions t sId cId secId (Some 5) = Inr t5
           \<and> list_all2 (questions_replaced secId five_questions)
                (addressed_chapters t sId cId) (addressed_chapters t5 sId cId)
           \<and> genQuestions t sId cId secId (Some 0) = Inr t0
           \<and> list_all2 (questions_replaced secId [])
                (addressed_chapters t sId cId) (addressed_chapters t0 sId cId)"
  using genQuestions_effect[OF assms fresh_questions_5]
    genQuestions_effect[OF assms fresh_questions_nonpositive[of 0]]
  by auto

theorem genQuestions_five_and_reset_witness:
  "has_section ''x1'' chapter1
   \<and> genQuestions tree1 ''s1'' ''c1'' ''x1'' (Some 5) = Inr tree1_five
   \<and> questions_replaced ''x1'' five_questions chapter1 (hd (chapters (hd tree1_five)))
   \<and> genQuestions tree1 ''s1'' ''c1'' ''x1'' (Some 0) = Inr tree1_reset
   \<and> questions_replaced ''x1'' [] chapter1 (hd (chapters (hd tree1_reset)))"
proof -
  have a: "addressed_chapters tree1 ''s1'' ''c1'' = [chapter1]"
    by (simp add: addressed_chapters_def tree1_def chapter1_def)
  have a5: "addressed_chapters tree1_five ''s1'' ''c1'' = [hd (chapters (hd tree1_five))]"
    by (simp add: addressed_chapters_def tree1_five_def)
  have a0: "addressed_chapters tree1_reset ''s1'' ''c1'' = [hd (chapters (hd tree1_reset))]"
    by (simp add: addressed_chapters_def tree1_reset_def)
  have h: "has_section ''x1'' chapter1" using tree1_has_x1 by (simp add: a)
  from genQuestions_five_and_reset[OF tree1_has_x1] h show ?thesis
    by (auto simp: genQuestions_tree1_five genQuestions_tree1_reset a a5 a0)
qed

text \<open>
  C10: with a count that is zero or negative \<^verbatim>\<open>genQuestions\<close> does what it does with the
  count 0: the question list of the addressed section becomes empty and the progress of the
  chapter is recomputed.
\<close>

theorem genQuestions_nonpositive:
  assumes "n \<le> 0" and "\<forall>c\<in>set (addressed_chapters t sId cId). has_section secId c"
  shows "genQuestions t sId cId secId (Some n) = genQuestions t sId cId secId (Some 0)
       \<and> (\<exists>t'. genQuestions t sId cId secId (Some n) = Inr t'
             \<and> list_all2 (questions_replaced secId [])
                  (addressed_chapters t sId cId) (addressed_chapters t' sId cId))"
proof -
  have "genQuestions_chapter secId (Some n) c = genQuestions_chapter secId (Some 0) c" for c
    using assms(1) by (simp add: genQuestions_chapter_def fresh_questions_nonpositive)
  then have "genQuestions t sId cId secId (Some n) = genQuestions t sId cId secId (Some 0)"
    by (simp add: genQuestions_def cong: if_cong)
  with genQuestions_effect[OF assms(2) fresh_questions_nonpositive[OF assms(1)]]
  show ?thesis by simp
qed

theorem genQuestions_nonpositive_witness:
  "(- 3 :: int) \<le> 0
   \<and> genQuestions tree1 ''s1'' ''c1'' ''x1'' (Some (- 3)) = Inr tree1_reset"
proof -
  have n: "(- 3 :: int) \<le> 0" by simp
  from genQuestions_nonpositive[OF n tree1_has_x1] show ?thesis
    by (simp add: genQuestions_tree1_reset)
qed

section \<open>C7: adding a sub-exercise\<close>

lemma sub_added_mono:
  "sub_added uuid k1 k2 secId name qs c c' \<Longrightarrow> k1' \<le> k1 \<Longrightarrow> k2 \<le> k2'
     \<Longrightarrow> sub_added uuid k1' k2' secId name qs c c'"
  unfolding sub_added_def by (auto split: option.splits)

lemma addSubExercise_chapter_effect:
  assumes "has_section secId c" and "fresh_questions qCount = Inr qs"
  shows "\<exists>c'. addSubExercise_chapter uuid k secId name qCount c = Inr (c', k + 1)
           \<and> ch_id c' = ch_id c \<and> sub_added uuid k (k + 1) secId name qs c c'"
proof -
  from assms(1) obtain secs sec where secs: "sections c = Some secs"
    and sec: "map_of secs secId = Some sec"
    by (auto simp: has_section_def split: option.splits)
  let ?sec' = "sec\<lparr>subExercises := Some
      (AList.update (uuid k) \<lparr>sub_id = uuid k, sub_name = name, sub_questions = Some qs\<rparr>
         (case subExercises sec of None \<Rightarrow> [] | Some subs \<Rightarrow> subs))\<rparr>"
  let ?c' = "with_sections c (AList.update secId ?sec' secs)"
  have 1: "addSubExercise_chapter uuid k secId name qCount c = Inr (?c', k + 1)"
    by (simp add: addSubExercise_chapter_def assms(2) secs sec Let_def)
  have k: "map fst (AList.update secId ?sec' secs) = map fst secs"
    using map_of_in_keys[OF sec] by (simp add: update_keys)
  have s: "sections ?c' = Some (AList.update secId ?sec' secs)"
    "ch_id ?c' = ch_id c" "ch_name ?c' = ch_name c"
    by (simp_all add: with_sections_def)
  have "sub_added uuid k (k + 1) secId name qs c ?c'"
    unfolding sub_added_def
    by (simp add: secs sec s k update_conv calculateProgress_with_sections)
  with 1 s(2) show ?thesis by blast
qed

lemma mapES_addressed:
  assumes "\<And>c k. c \<in> set cs \<Longrightarrow> ch_id c = cId \<Longrightarrow>
             \<exists>c'. f k c = Inr (c', k + 1) \<and> ch_id c' = cId \<and> R k (k + 1) c c'"
    and "\<And>k1 k2 k1' k2' c c'. R k1 k2 c c' \<Longrightarrow> k1' \<le> k1 \<Longrightarrow> k2 \<le> k2' \<Longrightarrow> R k1' k2' c c'"
  shows "\<exists>cs' k'. mapES (\<lambda>k c. if ch_id c \<noteq> cId then Inr (c, k) else f k c) k cs = Inr (cs', k')
           \<and> k \<le> k'
           \<and> list_all2 (R k k') (filter (\<lambda>c. ch_id c = cId) cs) (filter (\<lambda>c. ch_id c = cId) cs')"
  using assms(1)
proof (induction cs arbitrary: k)
  case Nil
  then show ?case by simp
next
  case (Cons c cs)
  let ?F = "\<lambda>k c. if ch_id c \<noteq> cId then Inr (c, k) else f k c"
  show ?case
  proof (cases "ch_id c = cId")
    case False
    from Cons.IH[of k] Cons.prems obtain cs' k' where
      r: "mapES ?F k cs = Inr (cs', k')" "k \<le> k'"
        "list_all2 (R k k') (filter (\<lambda>c. ch_id c = cId) cs) (filter (\<lambda>c. ch_id c = cId) cs')"
      by auto
    from False r show ?thesis by simp
  next
    case True
    from Cons.prems[of c k] True obtain c' where
      c': "f k c = Inr (c', k + 1)" "ch_id c' = cId" "R k (k + 1) c c'"
      by auto
    from Cons.IH[of "k + 1"] Cons.prems obtain cs' k' where
      r: "mapES ?F (k + 1) cs = Inr (cs', k')" "k + 1 \<le> k'"
        "list_all2 (R (k + 1) k') (filter (\<lambda>c. ch_id c = cId) cs) (filter (\<lambda>c. ch_id c = cId) cs')"
      by auto
    have h: "R k k' c c'" using assms(2)[OF c'(3), of k k'] r(2) by simp
    have t: "list_all2 (R k k') (filter (\<lambda>c. ch_id c = cId) cs) (filter (\<lambda>c. ch_id c = cId) cs')"
      by (rule list_all2_mono[OF r(3)]) (use assms(2) in auto)
    from True c' r h t show ?thesis by simp
  qed
qed

lemma addressed_chapters_Cons:
  "addressed_chapters (s # t) sId cId
     = (if subj_id s = sId then filter (\<lambda>c. ch_id c = cId) (chapters s) else [])
       @ addressed_chapters t sId cId"
  by (simp add: addressed_chapters_def)

lemma mapES_subjects:
  assumes "\<And>c k. c \<in> set (addressed_chapters t sId cId) \<Longrightarrow>
             \<exists>c'. f k c = Inr (c', k + 1) \<and> ch_id c' = cId \<and> R k (k + 1) c c'"
    and "\<And>k1 k2 k1' k2' c c'. R k1 k2 c c' \<Longrightarrow> k1' \<le> k1 \<Longrightarrow> k2 \<le> k2' \<Longrightarrow> R k1' k2' c c'"
  shows "\<exists>t' k'.
           mapES (\<lambda>k s. if subj_id s \<noteq> sId then Inr (s, k)
                        else (case mapES (\<lambda>k c. if ch_id c \<noteq> cId then Inr (c, k) else f k c)
                                     k (chapters s) of
                                Inl e \<Rightarrow> Inl e
                              | Inr (cs, k') \<Rightarrow> Inr (s\<lparr>chapters := cs\<rparr>, k')))
             k t = Inr (t', k')
           \<and> k \<le> k'
           \<and> list_all2 (R k k') (addressed_chapters t sId cId) (addressed_chapters t' sId cId)"
  using assms(1)
proof (induction t arbitrary: k)
  case Nil
  then show ?case by (simp add: addressed_chapters_def)
next
  case (Cons s t)
  let ?G = "\<lambda>k c. if ch_id c \<noteq> cId then Inr (c, k) else f k c"
  let ?F = "\<lambda>k s. if subj_id s \<noteq> sId then Inr (s, k)
                   else (case mapES ?G k (chapters s) of
                           Inl e \<Rightarrow> Inl e | Inr (cs, k') \<Rightarrow> Inr (s\<lparr>chapters := cs\<rparr>, k'))"
  have tl: "\<And>c k. c \<in> set (addressed_chapters t sId cId) \<Longrightarrow>
             \<exists>c'. f k c = Inr (c', k + 1) \<and> ch_id c' = cId \<and> R k (k + 1) c c'"
    using Cons.prems by (simp add: addressed_chapters_Cons)
  show ?case
  proof (cases "subj_id s = sId")
    case False
    from Cons.IH[of k, OF tl] obtain t' k' where
      r: "mapES ?F k t = Inr (t', k')" "k \<le> k'"
         "list_all2 (R k k') (addressed_chapters t sId cId) (addressed_chapters t' sId cId)"
      by blast
    from False r show ?thesis by (simp add: addressed_chapters_Cons)
  next
    case True
    have "\<exists>cs' k1. mapES ?G k (chapters s) = Inr (cs', k1) \<and> k \<le> k1
            \<and> list_all2 (R k k1) (filter (\<lambda>c. ch_id c = cId) (chapters s))
                 (filter (\<lambda>c. ch_id c = cId) cs')"
    proof (rule mapES_addressed)
      fix c k assume "c \<in> set (chapters s)" "ch_id c = cId"
      then show "\<exists>c'. f k c = Inr (c', k + 1) \<and> ch_id c' = cId \<and> R k (k + 1) c c'"
        using Cons.prems True by (simp add: addressed_chapters_Cons)
    next
      fix k1 k2 k1' k2' c c'
      assume "R k1 k2 c c'" "k1' \<le> k1" "k2 \<le> k2'"
      then show "R k1' k2' c c'" by (rule assms(2))
    qed
    then obtain cs' k1 where
      h: "mapES ?G k (chapters s) = Inr (cs', k1)" "k \<le> k1"
         "list_all2 (R k k1) (filter (\<lambda>c. ch_id c = cId) (chapters s))
            (filter (\<lambda>c. ch_id c = cId) cs')"
      by blast
    from Cons.IH[of k1, OF tl] obtain t' k' where
      r: "mapES ?F k1 t = Inr (t', k')" "k1 \<le> k'"
         "list_all2 (R k1 k') (addressed_chapters t sId cId) (addressed_chapters t' sId cId)"
      by blast
    have a: "list_all2 (R k k') (filter (\<lambda>c. ch_id c = cId) (chapters s))
               (filter (\<lambda>c. ch_id c = cId) cs')"
      by (rule list_all2_mono[OF h(3)]) (use assms(2) r(2) in auto)
    have b: "list_all2 (R k k') (addressed_chapters t sId cId) (addressed_chapters t' sId cId)"
      by (rule list_all2_mono[OF r(3)]) (use assms(2) h(2) in auto)
    from True h r a b show ?thesis
      by (simp add: addressed_chapters_Cons list_all2_appendI)
  qed
qed

lemma fresh_questions_count:
  "0 \<le> n \<Longrightarrow> n < 2 ^ 32 \<Longrightarrow> fresh_questions (Some n) = Inr (map new_question [0..<nat n])"
  by (auto simp: fresh_questions_def ToLength_def min_def)

lemma percent_1_6: "percent (Suc 0) (Suc (Suc (Suc (Suc (Suc (Suc 0)))))) = 17"
proof -
  have "percent 1 6 = 17" by code_simp
  then show ?thesis by (simp add: eval_nat_numeral)
qed

lemma fresh_questions_2:
  "fresh_questions (Some 2)
     = Inr [\<lparr>q_id = ''q-1'', completed = False\<rparr>, \<lparr>q_id = ''q-2'', completed = False\<rparr>]"
  by (simp add: fresh_questions_def ToLength_def new_question_def show_nat.simps digit_char_def
      upt_conv_Cons)

text \<open>
  C7 reads: \<^verbatim>\<open>addSubExercise\<close> adds one sub-exercise with a fresh identifier and \<open>count\<close>
  questions to a section of the exercise kind, and adds none to a section of another kind.
  The callback does not look at the type of the section: for the section \<open>x1\<close> of type
  \<^verbatim>\<open>pyqs\<close> it creates the sub-exercise map and puts the new sub-exercise into it.
\<close>

theorem C7_counterexample:
  "sec_type sec_pyqs \<noteq> Some ''exercise''
   \<and> addSubExercise uuid0 0 tree1 ''s1'' ''c1'' ''x1'' ''Set B'' (Some 2)
       = Inr (tree1_subset_in_pyqs, 1)"
  by (simp add: addSubExercise_def addSubExercise_chapter_def fresh_questions_2 tree1_def
      chapter1_def with_sections_def tree1_subset_in_pyqs_def calculateProgress_percent
      chapter_questions_def counted_questions_def sec_pyqs_def sec_exercise_def percent_1_4
      uuid0_def show_nat.simps digit_char_def Let_def)


text \<open>
  C7 as the code has it: in a tree that contains the addressed section, whatever its type, and
  for a count from 0 to \<open>2\<^sup>3\<^sup>2 - 1\<close>, \<^verbatim>\<open>addSubExercise\<close> returns; the section gets one
  sub-exercise under an identifier that \<^verbatim>\<open>crypto.randomUUID\<close> returned during the call, with
  the given name and \<open>count\<close> questions, none of them completed; the other sections keep their
  value and the progress of the chapter is recomputed.
\<close>

theorem addSubExercise_any_kind:
  assumes "\<forall>c\<in>set (addressed_chapters t sId cId). has_section secId c"
    and "0 \<le> n" and "n < 2 ^ 32"
  shows "\<exists>t' k'. addSubExercise uuid k t sId cId secId name (Some n) = Inr (t', k')
           \<and> list_all2 (sub_added uuid k k' secId name (map new_question [0..<nat n]))
                (addressed_chapters t sId cId) (addressed_chapters t' sId cId)
           \<and> length (map new_question [0..<nat n]) = nat n
           \<and> list_all (\<lambda>q. \<not> completed q) (map new_question [0..<nat n])"
proof -
  let ?qs = "map new_question [0..<nat n]"
  have fq: "fresh_questions (Some n) = Inr ?qs" by (rule fresh_questions_count[OF assms(2,3)])
  have "\<exists>t' k'.
           mapES (\<lambda>k s. if subj_id s \<noteq> sId then Inr (s, k)
                        else (case mapES (\<lambda>k c. if ch_id c \<noteq> cId then Inr (c, k)
                                                 else addSubExercise_chapter uuid k secId name (Some n) c)
                                     k (chapters s) of
                                Inl e \<Rightarrow> Inl e
                              | Inr (cs, k') \<Rightarrow> Inr (s\<lparr>chapters := cs\<rparr>, k')))
             k t = Inr (t', k')
           \<and> k \<le> k'
           \<and> list_all2 (sub_added uuid k k' secId name ?qs)
                (addressed_chapters t sId cId) (addressed_chapters t' sId cId)"
  proof (rule mapES_subjects)
    fix c k assume c: "c \<in> set (addressed_chapters t sId cId)"
    then have i: "ch_id c = cId" by (auto simp: addressed_chapters_def)
    from c assms(1) have "has_section secId c" by simp
    from addSubExercise_chapter_effect[OF this fq, of uuid k name] i
    show "\<exists>c'. addSubExercise_chapter uuid k secId name (Some n) c = Inr (c', k + 1)
            \<and> ch_id c' = cId \<and> sub_added uuid k (k + 1) secId name ?qs c c'"
      by auto
  next
    fix k1 k2 k1' k2' c c'
    assume "sub_added uuid k1 k2 secId name ?qs c c'" "k1' \<le> k1" "k2 \<le> k2'"
    then show "sub_added uuid k1' k2' secId name ?qs c c'" by (rule sub_added_mono)
  qed
  then show ?thesis
    by (auto simp: addSubExercise_def list_all_iff new_question_def)
qed

theorem addSubExercise_any_kind_witness:
  "has_section ''e1'' chapter1
   \<and> addSubExercise uuid0 0 tree1 ''s1'' ''c1'' ''e1'' ''Set B'' (Some 2)
       = Inr (tree1_subset_in_exercise, 1)
   \<and> sub_added uuid0 0 1 ''e1'' ''Set B'' (map new_question [0..<nat 2]) chapter1
       (hd (chapters (hd tree1_subset_in_exercise)))"
proof -
  have a: "addressed_chapters tree1 ''s1'' ''c1'' = [chapter1]"
    by (simp add: addressed_chapters_def tree1_def chapter1_def)
  have a': "addressed_chapters tree1_subset_in_exercise ''s1'' ''c1''
      = [hd (chapters (hd tree1_subset_in_exercise))]"
    by (simp add: addressed_chapters_def tree1_subset_in_exercise_def)
  have h: "\<forall>c\<in>set (addressed_chapters tree1 ''s1'' ''c1''). has_section ''e1'' c"
    by (simp add: a) (simp add: chapter1_def has_section_def)
  have e: "addSubExercise uuid0 0 tree1 ''s1'' ''c1'' ''e1'' ''Set B'' (Some 2)
       = Inr (tree1_subset_in_exercise, 1)"
    by (simp add: addSubExercise_def addSubExercise_chapter_def fresh_questions_2 tree1_def
      chapter1_def with_sections_def tree1_subset_in_exercise_def calculateProgress_percent
      chapter_questions_def counted_questions_def sec_pyqs_def sec_exercise_def percent_1_6
      uuid0_def show_nat.simps digit_char_def Let_def)
  from addSubExercise_any_kind[OF h, of 2 uuid0 0 "''Set B''"] h e show ?thesis
    by (auto simp: a a')
qed

section \<open>C4: the order of the local update and the write\<close>

lemma run_events_saveData: "subjects (run_events st (saveData st' t)) = subjects st"
  by (cases "user st'") (simp_all add: run_events_def saveData_def)

lemma run_events_saveData_app:
  "subjects (run_events st (saveData st' t @ [SetView v])) = subjects st"
  "subjects (run_events st (saveData st' t @ [SetIsAddingSubject b])) = subjects st"
  by (cases "user st'"; simp add: run_events_def saveData_def)+

lemma toggleQuestion_tree1:
  "toggleQuestion tree1 ''s1'' ''c1'' ''x1'' ''q-1'' None = Inr tree1_toggled"
  by (simp add: toggleQuestion_def toggleQuestion_chapter_def tree1_def chapter1_def truthy_def
      sec_pyqs_def sec_exercise_def toggle_list_def with_sections_def tree1_toggled_def
      calculateProgress_percent chapter_questions_def counted_questions_def percent_2_4)

text \<open>
  C4 reads: for every mutation the new tree is visible in the tree in memory strictly before
  the write of the document is dispatched. The callbacks hand the new tree to \<^verbatim>\<open>saveData\<close>, which
  calls \<^verbatim>\<open>setDoc\<close>; none of them calls \<^verbatim>\<open>setSubjects\<close>. When the write of a toggled question is
  dispatched, the tree in memory is still the old one.
\<close>

theorem C4_counterexample:
  "on_toggleQuestion app1 ''s1'' ''c1'' ''x1'' ''q-1'' None
     = Inr [WriteDocument ''uid-1'' tree1_toggled]
   \<and> \<not> write_after_visible app1 [WriteDocument ''uid-1'' tree1_toggled]"
  by (simp add: on_toggleQuestion_def app1_def toggleQuestion_tree1 saveData_def)
     (simp add: tree1_def tree1_toggled_def chapter1_def)


text \<open>
  C4 as the code has it: a callback that does not throw leaves the tree in memory as it is
  and, when a user is signed in, dispatches exactly one write, of the whole new tree;
  \<^verbatim>\<open>addSubject\<close> with a blank name has no effect at all. The tree in memory is set by the
  effect that follows the user and by nothing else: to the empty tree when that effect runs
  without a user, and to the list of the document (the empty tree when the document has none)
  when the listener of the subscription receives a snapshot of an existing document. A
  snapshot of a missing document and the opening of a subscription leave it as it is.
\<close>

theorem mutation_writes_without_local_update:
  "(on_toggleQuestion st sId cId secId qId subExId = Inr evs1 \<longrightarrow>
      subjects (run_events st evs1) = subjects st
      \<and> (user st = Some uid \<longrightarrow>
           (\<exists>t'. toggleQuestion (subjects st) sId cId secId qId subExId = Inr t'
                 \<and> evs1 = [WriteDocument uid t'])))
   \<and> (on_genQuestions st sId cId secId count = Inr evs2 \<longrightarrow>
      subjects (run_events st evs2) = subjects st
      \<and> (user st = Some uid \<longrightarrow>
           (\<exists>t'. genQuestions (subjects st) sId cId secId count = Inr t'
                 \<and> evs2 = [WriteDocument uid t'])))
   \<and> (on_addSubExercise uuid k st sId cId secId name qCount = Inr evs3 \<longrightarrow>
      subjects (run_events st evs3) = subjects st
      \<and> (user st = Some uid \<longrightarrow>
           (\<exists>t' k'. addSubExercise uuid k (subjects st) sId cId secId name qCount = Inr (t', k')
                 \<and> evs3 = [WriteDocument uid t'])))
   \<and> subjects (run_events st (on_addChapter uuid k st sId name kinds)) = subjects st
   \<and> (user st = Some uid \<longrightarrow>
        on_addChapter uuid k st sId name kinds
          = [WriteDocument uid (fst (addChapter uuid k (subjects st) sId name kinds))])
   \<and> subjects (run_events st (on_addGenericSection uuid k st sId cId lbl)) = subjects st
   \<and> (user st = Some uid \<longrightarrow>
        on_addGenericSection uuid k st sId cId lbl
          = [WriteDocument uid (fst (addGenericSection uuid k (subjects st) sId cId lbl))])
   \<and> subjects (run_events st (on_deleteChapter st sId cId)) = subjects st
   \<and> (user st = Some uid \<longrightarrow>
        on_deleteChapter st sId cId
          = [WriteDocument uid (deleteChapter (subjects st) sId cId), SetView sId])
   \<and> subjects (run_events st (on_addSubject uuid k st name)) = subjects st
   \<and> (trim_is_empty name \<longrightarrow> on_addSubject uuid k st name = [])
   \<and> (user st = Some uid \<and> \<not> trim_is_empty name \<longrightarrow>
        on_addSubject uuid k st name
          = [WriteDocument uid (subjects st @ [\<lparr>subj_id = uuid k, subj_name = name, chapters = []\<rparr>]),
             SetIsAddingSubject False])
   \<and> (user st = None \<and> \<not> trim_is_empty name \<longrightarrow>
        on_addSubject uuid k st name = [SetIsAddingSubject False])
   \<and> subjects (run_events st (on_snapshot None)) = subjects st
   \<and> subjects (run_events st (on_snapshot (Some None))) = []
   \<and> subjects (run_events st (on_snapshot (Some (Some t)))) = t
   \<and> subjects (run_events st (on_user_change prev None)) = []
   \<and> subjects (run_events st (on_user_change prev (Some uid'))) = subjects st"
proof -
  have 1: "on_toggleQuestion st sId cId secId qId subExId = Inr evs1 \<longrightarrow>
      subjects (run_events st evs1) = subjects st
      \<and> (user st = Some uid \<longrightarrow>
           (\<exists>t'. toggleQuestion (subjects st) sId cId secId qId subExId = Inr t'
                 \<and> evs1 = [WriteDocument uid t']))"
    by (auto simp: on_toggleQuestion_def saveData_def run_events_def split: sum.splits option.splits)
  have 2: "on_genQuestions st sId cId secId count = Inr evs2 \<longrightarrow>
      subjects (run_events st evs2) = subjects st
      \<and> (user st = Some uid \<longrightarrow>
           (\<exists>t'. genQuestions (subjects st) sId cId secId count = Inr t'
                 \<and> evs2 = [WriteDocument uid t']))"
    by (auto simp: on_genQuestions_def saveData_def run_events_def split: sum.splits option.splits)
  have 3: "on_addSubExercise uuid k st sId cId secId name qCount = Inr evs3 \<longrightarrow>
      subjects (run_events st evs3) = subjects st
      \<and> (user st = Some uid \<longrightarrow>
           (\<exists>t' k'. addSubExercise uuid k (subjects st) sId cId secId name qCount = Inr (t', k')
                 \<and> evs3 = [WriteDocument uid t']))"
    by (auto simp: on_addSubExercise_def saveData_def run_events_def split: sum.splits option.splits)
  have 4: "subjects (run_events st (on_addChapter uuid k st sId name kinds)) = subjects st"
    "user st = Some uid \<longrightarrow>
        on_addChapter uuid k st sId name kinds
          = [WriteDocument uid (fst (addChapter uuid k (subjects st) sId name kinds))]"
    by (simp add: on_addChapter_def run_events_saveData) (simp add: on_addChapter_def saveData_def)
  have 5: "subjects (run_events st (on_addGenericSection uuid k st sId cId lbl)) = subjects st"
    "user st = Some uid \<longrightarrow>
        on_addGenericSection uuid k st sId cId lbl
          = [WriteDocument uid (fst (addGenericSection uuid k (subjects st) sId cId lbl))]"
    by (simp add: on_addGenericSection_def run_events_saveData)
       (simp add: on_addGenericSection_def saveData_def)
  have 6: "subjects (run_events st (on_deleteChapter st sId cId)) = subjects st"
    "user st = Some uid \<longrightarrow>
        on_deleteChapter st sId cId
          = [WriteDocument uid (deleteChapter (subjects st) sId cId), SetView sId]"
    by (simp add: on_deleteChapter_def run_events_saveData_app)
       (simp add: on_deleteChapter_def saveData_def)
  have 7: "subjects (run_events st (on_addSubject uuid k st name)) = subjects st"
    "user st = Some uid \<and> \<not> trim_is_empty name \<longrightarrow>
        on_addSubject uuid k st name
          = [WriteDocument uid (subjects st @ [\<lparr>subj_id = uuid k, subj_name = name, chapters = []\<rparr>]),
             SetIsAddingSubject False]"
    "trim_is_empty name \<longrightarrow> on_addSubject uuid k st name = []"
    "user st = None \<and> \<not> trim_is_empty name \<longrightarrow>
        on_addSubject uuid k st name = [SetIsAddingSubject False]"
    by (auto simp: on_addSubject_def addSubject_def saveData_def run_events_def
        split: option.splits)
  have 8: "subjects (run_events st (on_snapshot None)) = subjects st"
    "subjects (run_events st (on_snapshot (Some None))) = []"
    "subjects (run_events st (on_snapshot (Some (Some t)))) = t"
    by (simp_all add: on_snapshot_def run_events_def)
  have 9: "subjects (run_events st (on_user_change prev None)) = []"
    "subjects (run_events st (on_user_change prev (Some uid'))) = subjects st"
    by (cases prev; simp add: on_user_change_def run_events_def)+
  from 1 2 3 4 5 6 7 8 9 show ?thesis by blast
qed

theorem mutation_writes_without_local_update_witness:
  "user app1 = Some ''uid-1''
   \<and> on_toggleQuestion app1 ''s1'' ''c1'' ''x1'' ''q-1'' None
       = Inr [WriteDocument ''uid-1'' tree1_toggled]
   \<and> subjects (run_events app1 [WriteDocument ''uid-1'' tree1_toggled]) = tree1
   \<and> subjects (run_events app1 (on_snapshot (Some (Some tree1_toggled)))) = tree1_toggled
   \<and> trim_is_empty [CHR 0x20, CHR 0xA0]
   \<and> on_addSubject uuid0 0 app1 [CHR 0x20, CHR 0xA0] = []
   \<and> \<not> trim_is_empty ''Math''
   \<and> on_addSubject uuid0 0 app1 ''Math''
       = [WriteDocument ''uid-1''
            (tree1 @ [\<lparr>subj_id = uuid0 0, subj_name = ''Math'', chapters = []\<rparr>]),
          SetIsAddingSubject False]
   \<and> user (app1\<lparr>user := None\<rparr>) = None
   \<and> on_addSubject uuid0 0 (app1\<lparr>user := None\<rparr>) ''Math'' = [SetIsAddingSubject False]
   \<and> subjects (run_events app1 (on_user_change (Some ''uid-1'') None)) = []"
proof -
  have u: "user app1 = Some ''uid-1''" and s: "subjects app1 = tree1" by (simp_all add: app1_def)
  have n: "user (app1\<lparr>user := None\<rparr>) = None" by simp
  have e: "on_toggleQuestion app1 ''s1'' ''c1'' ''x1'' ''q-1'' None
       = Inr [WriteDocument ''uid-1'' tree1_toggled]"
    by (simp add: on_toggleQuestion_def s toggleQuestion_tree1 saveData_def u)
  have b: "trim_is_empty [CHR 0x20, CHR 0xA0]"
    by (simp add: trim_is_empty_def white_space_def)
  have m: "\<not> trim_is_empty ''Math''"
    by (simp add: trim_is_empty_def white_space_def)
  from mutation_writes_without_local_update [where st = app1 and sId = "''s1''" and cId = "''c1''"
       and secId = "''x1''" and qId = "''q-1''" and subExId = None and uid = "''uid-1''"
       and ?evs1.0 = "[WriteDocument ''uid-1'' tree1_toggled]" and t = tree1_toggled
       and uuid = uuid0 and k = 0 and name = "[CHR 0x20, CHR 0xA0]"
       and prev = "Some ''uid-1''"]
    u s e b
  have 1: "subjects (run_events app1 [WriteDocument ''uid-1'' tree1_toggled]) = tree1
     \<and> subjects (run_events app1 (on_snapshot (Some (Some tree1_toggled)))) = tree1_toggled
     \<and> on_addSubject uuid0 0 app1 [CHR 0x20, CHR 0xA0] = []
     \<and> subjects (run_events app1 (on_user_change (Some ''uid-1'') None)) = []"
    by simp
  from mutation_writes_without_local_update [where st = app1 and uid = "''uid-1''"
       and uuid = uuid0 and k = 0 and name = "''Math''"]
    u s m
  have 2: "on_addSubject uuid0 0 app1 ''Math''
       = [WriteDocument ''uid-1''
            (tree1 @ [\<lparr>subj_id = uuid0 0, subj_name = ''Math'', chapters = []\<rparr>]),
          SetIsAddingSubject False]"
    by simp
  from mutation_writes_without_local_update [where st = "app1\<lparr>user := None\<rparr>"
       and uuid = uuid0 and k = 0 and name = "''Math''"]
    n m
  have 3: "on_addSubject uuid0 0 (app1\<lparr>user := None\<rparr>) ''Math'' = [SetIsAddingSubject False]"
    by simp
  from u e b m n 1 2 3 show ?thesis by simp
qed

section \<open>A session\<close>

text \<open>
  The mutations in sequence, on the identifiers that the earlier ones drew: after two of the
  four questions of the sub-exercise are toggled, the progress of the chapter is 50.
\<close>

lemma percent_examples: "percent 10 10 = 100" "percent 5 10 = 50" "percent 1 8 = 13"
  by code_simp+

lemma session_progress: "map (map progress \<circ> chapters) session_tree = [[50]]"
  by (simp add: session_tree_def addSubject_def trim_is_empty_def white_space_def addChapter_def Let_def
      addSubExercise_def addSubExercise_chapter_def fresh_questions_def ToLength_def
      new_question_def upt_conv_Cons toggleQuestion_def toggleQuestion_chapter_def truthy_def
      toggle_list_def with_sections_def calculateProgress_percent chapter_questions_def
      counted_questions_def toLowerCase_def upper_case_letters_def lower_case_letters_def uuid0_def show_nat.simps digit_char_def
      percent_none_completed percent_1_4 percent_2_4)

end
